theory Spec2Isabelle
  imports Complex_Main "HOL-Library.List_Lexorder" "HOL-Library.Sublist" "HOL-Library.Multiset"
    "HOL-Library.Word"
begin

section \<open>ParkSphere: the park catalogue of \<^verbatim>\<open>parksphere/server/main.py\<close>\<close>

text \<open>
  The server reads two SQLite tables, \<^verbatim>\<open>parks\<close> and \<^verbatim>\<open>images\<close>, and assembles
  \<^verbatim>\<open>Park\<close> values from them. The embedding follows the file top to bottom: the
  Pydantic classes become records, each SQL statement becomes a function on the table it
  reads, each handler becomes a function from the database to \<open>error + result\<close>, where
  \<open>Inl\<close> is the exception the handler raises.

  Python's \<^verbatim>\<open>str\<close> is a sequence of Unicode code points, so a string is a list of
  code points here (\<open>nat list\<close>); \<open>lit\<close> turns an Isabelle string literal into one.
  \<^verbatim>\<open>len\<close> is \<open>length\<close>, and the order of strings is the lexicographic order of the
  code points, which is the order of SQLite's default (binary) collation on UTF-8 text.
\<close>

type_synonym str = "nat list"

definition lit :: "string \<Rightarrow> str" where
  "lit s = map of_char s"

text \<open>
  The exceptions of a request: \<^verbatim>\<open>HTTPException(status_code=...)\<close> raised by the
  handlers themselves; \<^verbatim>\<open>json.JSONDecodeError\<close>, \<^verbatim>\<open>ValueError\<close> (an integer of
  too many digits) and \<^verbatim>\<open>RecursionError\<close> (a document nested too deeply) raised by
  \<^verbatim>\<open>json.loads\<close>; Pydantic's \<^verbatim>\<open>ValidationError\<close> raised by the constructor of
  \<^verbatim>\<open>Park\<close>; \<^verbatim>\<open>OverflowError\<close> and \<^verbatim>\<open>UnicodeEncodeError\<close> raised by \<^verbatim>\<open>sqlite3\<close>
  when it binds a parameter SQLite cannot hold (an integer outside 64 bits, a string with
  a lone surrogate); \<^verbatim>\<open>sqlite3.OperationalError\<close> raised when SQLite refuses a
  \<^verbatim>\<open>LIKE\<close> pattern as too long. A missing database file and a failing disk are
  outside the model.
\<close>

datatype error =
    HTTPException nat
  | JSONDecodeError
  | ValueError
  | RecursionError
  | ValidationError
  | OverflowError
  | UnicodeEncodeError
  | OperationalError

subsection \<open>\<^verbatim>\<open>json.loads\<close>\<close>

text \<open>
  What \<^verbatim>\<open>json.loads\<close> returns: \<^verbatim>\<open>None\<close>, a \<^verbatim>\<open>bool\<close>, an \<^verbatim>\<open>int\<close>, a \<^verbatim>\<open>float\<close>
  (a real number here; \<^verbatim>\<open>NaN\<close> and the infinities, which Python's decoder accepts, are
  values of their own), a \<^verbatim>\<open>str\<close>, a \<^verbatim>\<open>list\<close> or a \<^verbatim>\<open>dict\<close> (its items in the order
  read).
\<close>

datatype json =
    JNull
  | JBool bool
  | JInt int
  | JFloat real
  | JNaN
  | JInfinity bool
  | JString str
  | JArray "json list"
  | JObject "(str \<times> json) list"

text \<open>
  What the code does not fix and the interpreter does: how Pydantic treats a number or a
  boolean where it expects a string (\<open>str_lax\<close>: Pydantic 1 writes it as text, Pydantic
  2 refuses it), the number of digits Python allows in an integer it converts
  (\<open>max_str_digits\<close>, 4300 by default and 0 for no limit), and how deep
  \<^verbatim>\<open>json.loads\<close> can go before the recursion limit stops it (\<open>nesting\<close>: the number
  of levels of arrays and objects it can enter below the outermost one; the interpreter
  has room for that one).
\<close>

record runtime =
  str_lax :: "json \<Rightarrow> str option"
  max_str_digits :: nat
  nesting :: nat

text \<open>
  The decoder follows CPython's scanner (\<^verbatim>\<open>json/decoder.py\<close>, \<^verbatim>\<open>json/scanner.py\<close>,
  \<^verbatim>\<open>_json.c\<close>): \<open>scanstring\<close> reads a string after its opening quote, \<open>scan_once\<close>
  reads one value, \<open>JSONArray\<close> and \<open>JSONObject\<close> read the rest of an array and of an
  object. Each returns the value and the text left, or the exception Python raises.
  \<open>scanstring\<close> has one exception only, \<^verbatim>\<open>JSONDecodeError\<close>, which is \<open>None\<close>.
\<close>

definition whitespace :: "nat \<Rightarrow> bool" where
  "whitespace c = (c = 32 \<or> c = 9 \<or> c = 10 \<or> c = 13)"

definition skip_ws :: "str \<Rightarrow> str" where
  "skip_ws s = dropWhile whitespace s"

definition hex_digit :: "nat \<Rightarrow> nat option" where
  "hex_digit c =
     (if 48 \<le> c \<and> c \<le> 57 then Some (c - 48)
      else if 97 \<le> c \<and> c \<le> 102 then Some (c - 87)
      else if 65 \<le> c \<and> c \<le> 70 then Some (c - 55)
      else None)"

definition hex4 :: "str \<Rightarrow> nat option" where
  "hex4 s =
     (case map hex_digit (take 4 s) of
        [Some a, Some b, Some c, Some d] \<Rightarrow> Some (((a * 16 + b) * 16 + c) * 16 + d)
      | _ \<Rightarrow> None)"

text \<open>
  A \<^verbatim>\<open>\uXXXX\<close> escape, read after the \<^verbatim>\<open>u\<close>: the code point and the number of
  characters it took. A high surrogate followed by the escape of a low surrogate is one
  code point; a lone surrogate stays as it is.
\<close>

definition scan_u :: "str \<Rightarrow> (nat \<times> nat) option" where
  "scan_u s =
     (case hex4 s of
        None \<Rightarrow> None
      | Some c \<Rightarrow>
          if 55296 \<le> c \<and> c \<le> 56319 \<and> take 2 (drop 4 s) = [92, 117] then
            (case hex4 (drop 6 s) of
               None \<Rightarrow> None
             | Some c2 \<Rightarrow>
                 if 56320 \<le> c2 \<and> c2 \<le> 57343
                 then Some (65536 + ((c - 55296) * 1024 + (c2 - 56320)), 10)
                 else Some (c, 4))
          else Some (c, 4))"

definition backslash :: "nat \<Rightarrow> nat option" where
  "backslash e =
     (if e = 34 then Some 34
      else if e = 92 then Some 92
      else if e = 47 then Some 47
      else if e = 98 then Some 8
      else if e = 102 then Some 12
      else if e = 110 then Some 10
      else if e = 114 then Some 13
      else if e = 116 then Some 9
      else None)"

fun scanstring :: "str \<Rightarrow> str \<Rightarrow> (str \<times> str) option" where
  "scanstring acc [] = None"
| "scanstring acc (c # cs) =
     (if c = 34 then Some (rev acc, cs)
      else if c = 92 then
        (case cs of
           [] \<Rightarrow> None
         | e # es \<Rightarrow>
             if e = 117 then
               (case scan_u es of
                  None \<Rightarrow> None
                | Some (u, n) \<Rightarrow> scanstring (u # acc) (drop n es))
             else
               (case backslash e of
                  None \<Rightarrow> None
                | Some x \<Rightarrow> scanstring (x # acc) es))
      else if c < 32 then None
      else scanstring (c # acc) cs)"

definition digit :: "nat \<Rightarrow> bool" where
  "digit c = (48 \<le> c \<and> c \<le> 57)"

definition digits_value :: "str \<Rightarrow> nat" where
  "digits_value ds = foldl (\<lambda>a d. 10 * a + (d - 48)) 0 ds"

text \<open>
  A number, as the scanner's \<^verbatim>\<open>NUMBER_RE\<close> matches it: an integer part, then a
  fraction and an exponent when they are complete. With neither the value is an
  \<^verbatim>\<open>int\<close>, otherwise a \<^verbatim>\<open>float\<close> (the decimal's exact value here). Python refuses
  to convert an integer of more than \<open>m\<close> digits, when \<open>m\<close> is not 0 and the digits
  are more than 640 (\<^verbatim>\<open>PyLong_FromString\<close>).
\<close>

definition match_number :: "nat \<Rightarrow> str \<Rightarrow> error + (json \<times> str)" where
  "match_number m s =
     (let neg = (take 1 s = [45]);
          s1 = (if neg then drop 1 s else s);
          ip = (if take 1 s1 = [48] then [48]
                else if s1 \<noteq> [] \<and> 49 \<le> hd s1 \<and> hd s1 \<le> 57 then takeWhile digit s1
                else []);
          s2 = drop (length ip) s1;
          fp = (if take 1 s2 = [46] then takeWhile digit (drop 1 s2) else []);
          s3 = (if fp = [] then s2 else drop (Suc (length fp)) s2);
          e1 = (if take 1 s3 = [101] \<or> take 1 s3 = [69] then drop 1 s3 else []);
          eneg = (take 1 e1 = [45]);
          e2 = (if take 1 e1 = [45] \<or> take 1 e1 = [43] then drop 1 e1 else e1);
          ep = takeWhile digit e2;
          s4 = (if ep = [] then s3 else drop (length ep) e2);
          n = int (digits_value (ip @ fp));
          ex = (if eneg then - int (digits_value ep) else int (digits_value ep)) - int (length fp);
          mag = (if 0 \<le> ex then of_int n * 10 ^ nat ex else of_int n / 10 ^ nat (- ex))
      in if ip = [] then Inl JSONDecodeError
         else if fp = [] \<and> ep = [] then
           (if 640 < length ip \<and> 0 < m \<and> m < length ip then Inl ValueError
            else Inr (JInt (if neg then - int (digits_value ip) else int (digits_value ip)), s4))
         else Inr (JFloat (if neg then - mag else mag), s4))"

definition starts :: "str \<Rightarrow> str \<Rightarrow> bool" where
  "starts p s = (take (length p) s = p)"

definition scan_atom :: "nat \<Rightarrow> str \<Rightarrow> error + (json \<times> str)" where
  "scan_atom m s =
     (if starts (lit ''null'') s then Inr (JNull, drop 4 s)
      else if starts (lit ''true'') s then Inr (JBool True, drop 4 s)
      else if starts (lit ''false'') s then Inr (JBool False, drop 5 s)
      else if starts (lit ''NaN'') s then Inr (JNaN, drop 3 s)
      else if starts (lit ''Infinity'') s then Inr (JInfinity False, drop 8 s)
      else if starts (lit ''-Infinity'') s then Inr (JInfinity True, drop 9 s)
      else match_number m s)"

lemma scanstring_shorter:
  "scanstring acc s = Some (v, rest) \<Longrightarrow> length rest < length s"
proof (induction acc s rule: scanstring.induct)
  case (1 acc)
  then show ?case by simp
next
  case (2 acc c cs)
  show ?case
  proof (cases "c = 34")
    case True
    with 2(4) show ?thesis by simp
  next
    case n34: False
    show ?thesis
    proof (cases "c = 92")
      case True
      show ?thesis
      proof (cases cs)
        case Nil
        with 2(4) n34 True show ?thesis by simp
      next
        case (Cons e es)
        show ?thesis
        proof (cases "e = 117")
          case u: True
          then obtain u n where su: "scan_u es = Some (u, n)"
            using 2(4) n34 True Cons by (auto split: option.splits)
          then have "scanstring (u # acc) (drop n es) = Some (v, rest)"
            using 2(4) n34 True Cons u by simp
          from 2(1)[OF n34 True Cons u su refl this]
          show ?thesis using Cons by simp
        next
          case nu: False
          then obtain x where bx: "backslash e = Some x"
            using 2(4) n34 True Cons by (auto split: option.splits)
          then have "scanstring (x # acc) es = Some (v, rest)"
            using 2(4) n34 True Cons nu by simp
          from 2(2)[OF n34 True Cons nu bx this]
          show ?thesis using Cons by simp
        qed
      qed
    next
      case n92: False
      then have c32: "\<not> c < 32" and "scanstring (c # acc) cs = Some (v, rest)"
        using 2(4) n34 by (auto split: if_splits)
      from 2(3)[OF n34 n92 c32 this(2)] show ?thesis by simp
    qed
  qed
qed

lemma skip_ws_length: "length (skip_ws s) \<le> length s"
  by (simp add: skip_ws_def length_dropWhile_le)

lemma skip_ws_Cons_length: "skip_ws s = d # ds \<Longrightarrow> length ds < length s"
  using skip_ws_length [of s] by simp

text \<open>
  \<open>scan_once m d s\<close> reads a value from \<open>s\<close>, where \<open>d\<close> is the number of arrays and
  objects it may still enter: \<^verbatim>\<open>RecursionError\<close> at an opening bracket or brace when
  \<open>d\<close> is 0. The two loops go on with the text a value left behind. That text is
  shorter than the text the value was read from; the test \<open>length s \<le> length rest\<close>
  says so in the definition, which makes the recursion well-founded.
\<close>

function scan_once :: "nat \<Rightarrow> nat \<Rightarrow> str \<Rightarrow> error + (json \<times> str)"
  and JSONArray :: "nat \<Rightarrow> nat \<Rightarrow> json list \<Rightarrow> str \<Rightarrow> error + (json \<times> str)"
  and JSONObject :: "nat \<Rightarrow> nat \<Rightarrow> (str \<times> json) list \<Rightarrow> str \<Rightarrow> error + (json \<times> str)"
where
  "scan_once m d s =
     (case s of
        [] \<Rightarrow> Inl JSONDecodeError
      | c # cs \<Rightarrow>
          if c = 34 then
            (case scanstring [] cs of
               None \<Rightarrow> Inl JSONDecodeError
             | Some (v, rest) \<Rightarrow> Inr (JString v, rest))
          else if c = 123 then
            (case d of
               0 \<Rightarrow> Inl RecursionError
             | Suc d' \<Rightarrow>
                 (case skip_ws cs of
                    [] \<Rightarrow> Inl JSONDecodeError
                  | x # xs \<Rightarrow>
                      if x = 125 then Inr (JObject [], xs)
                      else if x = 34 then JSONObject m d' [] xs
                      else Inl JSONDecodeError))
          else if c = 91 then
            (case d of
               0 \<Rightarrow> Inl RecursionError
             | Suc d' \<Rightarrow>
                 (case skip_ws cs of
                    [] \<Rightarrow> Inl JSONDecodeError
                  | x # xs \<Rightarrow>
                      if x = 93 then Inr (JArray [], xs)
                      else JSONArray m d' [] (x # xs)))
          else scan_atom m s)"
| "JSONArray m d values s =
     (case scan_once m d s of
        Inl e \<Rightarrow> Inl e
      | Inr (v, rest) \<Rightarrow>
          if length s \<le> length rest then Inl JSONDecodeError
          else
            (case skip_ws rest of
               [] \<Rightarrow> Inl JSONDecodeError
             | x # xs \<Rightarrow>
                 if x = 93 then Inr (JArray (values @ [v]), xs)
                 else if x = 44 then JSONArray m d (values @ [v]) (skip_ws xs)
                 else Inl JSONDecodeError))"
| "JSONObject m d pairs s =
     (case scanstring [] s of
        None \<Rightarrow> Inl JSONDecodeError
      | Some (key, rest) \<Rightarrow>
          (case skip_ws rest of
             [] \<Rightarrow> Inl JSONDecodeError
           | c # cs \<Rightarrow>
               if c \<noteq> 58 then Inl JSONDecodeError
               else
                 (case scan_once m d (skip_ws cs) of
                    Inl e \<Rightarrow> Inl e
                  | Inr (v, rest') \<Rightarrow>
                      if length s \<le> length rest' then Inl JSONDecodeError
                      else
                        (case skip_ws rest' of
                           [] \<Rightarrow> Inl JSONDecodeError
                         | x # xs \<Rightarrow>
                             if x = 125 then Inr (JObject (pairs @ [(key, v)]), xs)
                             else if x = 44 then
                               (case skip_ws xs of
                                  [] \<Rightarrow> Inl JSONDecodeError
                                | q # ks \<Rightarrow>
                                    if q = 34 then JSONObject m d (pairs @ [(key, v)]) ks
                                    else Inl JSONDecodeError)
                             else Inl JSONDecodeError))))"
  by pat_completeness auto

termination
proof (relation "measure (\<lambda>x. case x of
          Inl (m, d, s) \<Rightarrow> 2 * length s
        | Inr (Inl (m, d, vs, s)) \<Rightarrow> 2 * length s + 1
        | Inr (Inr (m, d, ps, s)) \<Rightarrow> 2 * length s + 1)", goal_cases)
  case 1
  show ?case by simp
next
  case (2 m d s c cs d' x xs)
  then show ?case using skip_ws_Cons_length [of cs x xs] by simp
next
  case (3 m d s c cs d' x xs)
  then show ?case using skip_ws_length [of cs] by simp
next
  case (4 m d vs s)
  show ?case by simp
next
  case (5 m d vs s a v rest x xs)
  then show ?case
    using skip_ws_Cons_length [of rest x xs] skip_ws_length [of xs] by simp
next
  case (6 m d ps s a key rest c cs)
  then show ?case
    using scanstring_shorter [of "[]" s key rest] skip_ws_Cons_length [of rest c cs]
      skip_ws_length [of cs] by simp
next
  case (7 m d ps s a key rest c cs b v rest' x xs q ks)
  then show ?case
    using skip_ws_Cons_length [of rest' x xs] skip_ws_Cons_length [of xs q ks] by simp
qed

declare scan_once.simps [simp del] JSONArray.simps [simp del] JSONObject.simps [simp del]

text \<open>
  The test in the loops never fails: whatever \<open>scan_once\<close>, \<open>JSONArray\<close> and
  \<open>JSONObject\<close> read, the text they leave is shorter than the text they were given.
\<close>

lemma starts_length: "starts p s \<Longrightarrow> length p \<le> length s"
  by (metis starts_def length_take min.cobounded2 min.commute)

lemma match_number_shorter:
  assumes "match_number m s = Inr (v, rest)"
  shows "length rest < length s"
proof -
  define s1 where "s1 = (if take 1 s = [45] then drop 1 s else s)"
  define ip where "ip = (if take 1 s1 = [48] then [48]
                else if s1 \<noteq> [] \<and> 49 \<le> hd s1 \<and> hd s1 \<le> 57 then takeWhile digit s1
                else [])"
  define s2 where "s2 = drop (length ip) s1"
  define fp where "fp = (if take 1 s2 = [46] then takeWhile digit (drop 1 s2) else [])"
  define s3 where "s3 = (if fp = [] then s2 else drop (Suc (length fp)) s2)"
  define e1 where "e1 = (if take 1 s3 = [101] \<or> take 1 s3 = [69] then drop 1 s3 else [])"
  define e2 where "e2 = (if take 1 e1 = [45] \<or> take 1 e1 = [43] then drop 1 e1 else e1)"
  define ep where "ep = takeWhile digit e2"
  define s4 where "s4 = (if ep = [] then s3 else drop (length ep) e2)"
  have gen: "\<not> c \<and> rest = r"
    if "(if c then Inl e else if d then (if t then Inl e' else Inr (a, r)) else Inr (b, r))
          = Inr (v, rest)"
    for c d t and e e' :: error and a b :: json and r
    using that by (auto split: if_splits)
  note g = gen [OF assms [unfolded match_number_def Let_def]]
  have ip: "ip \<noteq> []"
    unfolding ip_def s1_def by (rule conjunct1 [OF g])
  have rest: "rest = s4"
    unfolding s4_def ep_def e2_def e1_def s3_def fp_def s2_def ip_def s1_def
    by (rule conjunct2 [OF g])
  have "length s1 \<le> length s" by (simp add: s1_def)
  moreover have "s1 \<noteq> []" using ip by (auto simp: ip_def split: if_splits)
  moreover have "length s2 < length s1"
    using ip \<open>s1 \<noteq> []\<close> by (simp add: s2_def)
  moreover have "length s3 \<le> length s2" by (simp add: s3_def)
  moreover have "length e2 \<le> length s3"
    by (simp add: e2_def e1_def)
  moreover have "length s4 \<le> length s3"
    using \<open>length e2 \<le> length s3\<close> by (auto simp: s4_def)
  ultimately show ?thesis using rest by simp
qed

lemma scan_atom_shorter:
  assumes "scan_atom m s = Inr (v, rest)"
  shows "length rest < length s"
proof -
  have l: "length (drop n s) < length s" if "starts p s" and "0 < n" and "n \<le> length p" for p n
    using starts_length [OF that(1)] that(2,3) by simp
  consider "starts (lit ''null'') s" "rest = drop 4 s"
    | "starts (lit ''true'') s" "rest = drop 4 s"
    | "starts (lit ''false'') s" "rest = drop 5 s"
    | "starts (lit ''NaN'') s" "rest = drop 3 s"
    | "starts (lit ''Infinity'') s" "rest = drop 8 s"
    | "starts (lit ''-Infinity'') s" "rest = drop 9 s"
    | "match_number m s = Inr (v, rest)"
    using assms unfolding scan_atom_def by (auto split: if_splits)
  then show ?thesis
  proof cases
    case 1 then show ?thesis using l [of "lit ''null''" 4] by (simp add: lit_def)
  next
    case 2 then show ?thesis using l [of "lit ''true''" 4] by (simp add: lit_def)
  next
    case 3 then show ?thesis using l [of "lit ''false''" 5] by (simp add: lit_def)
  next
    case 4 then show ?thesis using l [of "lit ''NaN''" 3] by (simp add: lit_def)
  next
    case 5 then show ?thesis using l [of "lit ''Infinity''" 8] by (simp add: lit_def)
  next
    case 6 then show ?thesis using l [of "lit ''-Infinity''" 9] by (simp add: lit_def)
  next
    case 7 then show ?thesis by (rule match_number_shorter)
  qed
qed

lemma scan_shorter:
  "(\<forall>v rest. scan_once m d s = Inr (v, rest) \<longrightarrow> length rest < length s)"
  "(\<forall>v rest. JSONArray m d vs s = Inr (v, rest) \<longrightarrow> length rest < length s)"
  "(\<forall>v rest. JSONObject m d ps s = Inr (v, rest) \<longrightarrow> length rest < length s)"
proof (induction m d s and m d vs s and m d ps s rule: scan_once_JSONArray_JSONObject.induct)
  case (1 m d s)
  show ?case
  proof (intro allI impI)
    fix v rest assume a0: "scan_once m d s = Inr (v, rest)"
    note a = a0 [unfolded scan_once.simps [of m d s]]
    then obtain c cs where s: "s = c # cs" by (cases s) auto
    show "length rest < length s"
    proof (cases "c = 34")
      case True
      with a s obtain x where "scanstring [] cs = Some (x, rest)"
        by (auto split: option.splits)
      from scanstring_shorter [OF this] s show ?thesis by simp
    next
      case n34: False
      show ?thesis
      proof (cases "c = 123")
        case True
        with a s n34 obtain d' where d: "d = Suc d'" by (cases d) auto
        with a s n34 True obtain x xs where w: "skip_ws cs = x # xs"
          by (cases "skip_ws cs") auto
        show ?thesis
        proof (cases "x = 125")
          case True
          with a s n34 \<open>c = 123\<close> d w have "rest = xs" by simp
          with skip_ws_Cons_length [OF w] s show ?thesis by simp
        next
          case False
          with a s n34 \<open>c = 123\<close> d w have x: "x = 34" and o: "JSONObject m d' [] xs = Inr (v, rest)"
            by (auto split: if_splits)
          from 1(1) [OF s n34 \<open>c = 123\<close> d w False x] o have "length rest < length xs" by blast
          with skip_ws_Cons_length [OF w] s show ?thesis by simp
        qed
      next
        case n123: False
        show ?thesis
        proof (cases "c = 91")
          case True
          with a s n34 n123 obtain d' where d: "d = Suc d'" by (cases d) auto
          with a s n34 n123 True obtain x xs where w: "skip_ws cs = x # xs"
            by (cases "skip_ws cs") auto
          show ?thesis
          proof (cases "x = 93")
            case True
            with a s n34 n123 \<open>c = 91\<close> d w have "rest = xs" by simp
            with skip_ws_Cons_length [OF w] s show ?thesis by simp
          next
            case False
            with a s n34 n123 \<open>c = 91\<close> d w have o: "JSONArray m d' [] (x # xs) = Inr (v, rest)"
              by auto
            from 1(2) [OF s n34 n123 \<open>c = 91\<close> d w False] o
            have "length rest < length (x # xs)" by blast
            with skip_ws_Cons_length [OF w] s show ?thesis by simp
          qed
        next
          case False
          with a s n34 n123 have "scan_atom m s = Inr (v, rest)" by simp
          then show ?thesis by (rule scan_atom_shorter)
        qed
      qed
    qed
  qed
next
  case (2 m d vs s)
  show ?case
  proof (intro allI impI)
    fix v rest assume a0: "JSONArray m d vs s = Inr (v, rest)"
    note a = a0 [unfolded JSONArray.simps [of m d vs s]]
    then obtain x r1 where so: "scan_once m d s = Inr (x, r1)"
      by (cases "scan_once m d s") auto
    with 2(1) have l: "length r1 < length s" by blast
    with a so obtain y ys where w: "skip_ws r1 = y # ys"
      by (cases "skip_ws r1") auto
    show "length rest < length s"
    proof (cases "y = 93")
      case True
      with a so l w have "rest = ys" by simp
      with skip_ws_Cons_length [OF w] l show ?thesis by simp
    next
      case False
      with a so l w have y: "y = 44" and o: "JSONArray m d (vs @ [x]) (skip_ws ys) = Inr (v, rest)"
        by (auto split: if_splits)
      have "\<not> length s \<le> length r1" using l by simp
      from 2(2) [OF so refl this w False y] o have "length rest < length (skip_ws ys)" by blast
      with skip_ws_length [of ys] skip_ws_Cons_length [OF w] l show ?thesis by simp
    qed
  qed
next
  case (3 m d ps s)
  show ?case
  proof (intro allI impI)
    fix v rest assume a0: "JSONObject m d ps s = Inr (v, rest)"
    note a = a0 [unfolded JSONObject.simps [of m d ps s]]
    then obtain key r1 where k: "scanstring [] s = Some (key, r1)"
      by (cases "scanstring [] s") auto
    with a obtain c cs where w1: "skip_ws r1 = c # cs"
      by (cases "skip_ws r1") auto
    with a k have c: "\<not> c \<noteq> 58"
      by (auto split: if_splits)
    with a k w1 obtain x r2 where so: "scan_once m d (skip_ws cs) = Inr (x, r2)"
      by (cases "scan_once m d (skip_ws cs)") auto
    with a k w1 c have l: "\<not> length s \<le> length r2"
      by (auto split: if_splits)
    with a k w1 c so obtain y ys where w2: "skip_ws r2 = y # ys"
      by (cases "skip_ws r2") auto
    show "length rest < length s"
    proof (cases "y = 125")
      case True
      with a k w1 c so l w2 have "rest = ys" by simp
      with skip_ws_Cons_length [OF w2] l show ?thesis by simp
    next
      case False
      with a k w1 c so l w2 have y: "y = 44"
        by (auto split: if_splits)
      with a k w1 c so l w2 False obtain q ks where w3: "skip_ws ys = q # ks"
        by (cases "skip_ws ys") auto
      with a k w1 c so l w2 False y have q: "q = 34"
        and o: "JSONObject m d (ps @ [(key, x)]) ks = Inr (v, rest)"
        by (auto split: if_splits)
      from 3(2) [OF k refl w1 c so refl l w2 False y w3 q] o
      have "length rest < length ks" by blast
      with skip_ws_Cons_length [OF w3] skip_ws_Cons_length [OF w2] l show ?thesis by simp
    qed
  qed
qed


text \<open>
  The exceptions of the scanner are \<^verbatim>\<open>JSONDecodeError\<close>, \<^verbatim>\<open>ValueError\<close> and
  \<^verbatim>\<open>RecursionError\<close>, and no other.
\<close>

lemma match_number_error:
  assumes "match_number m s = Inl e"
  shows "e = JSONDecodeError \<or> e = ValueError"
proof -
  have gen: "e = JSONDecodeError \<or> e = ValueError"
    if "(if c then Inl JSONDecodeError else if d then (if t then Inl ValueError else Inr x) else Inr y)
          = Inl e"
    for c d t and x y :: "json \<times> str"
    using that by (auto split: if_splits)
  show ?thesis by (rule gen [OF assms [unfolded match_number_def Let_def]])
qed

lemma scan_atom_error:
  "scan_atom m s = Inl e \<Longrightarrow> e = JSONDecodeError \<or> e = ValueError"
  unfolding scan_atom_def by (auto split: if_splits dest: match_number_error)

lemma scan_error:
  "(\<forall>e. scan_once m d s = Inl e \<longrightarrow> e = JSONDecodeError \<or> e = ValueError \<or> e = RecursionError)"
  "(\<forall>e. JSONArray m d vs s = Inl e \<longrightarrow> e = JSONDecodeError \<or> e = ValueError \<or> e = RecursionError)"
  "(\<forall>e. JSONObject m d ps s = Inl e \<longrightarrow> e = JSONDecodeError \<or> e = ValueError \<or> e = RecursionError)"
proof (induction m d s and m d vs s and m d ps s rule: scan_once_JSONArray_JSONObject.induct)
  case (1 m d s)
  show ?case
  proof (intro allI impI)
    fix e assume a0: "scan_once m d s = Inl e"
    note a = a0 [unfolded scan_once.simps [of m d s]]
    let ?good = "e = JSONDecodeError \<or> e = ValueError \<or> e = RecursionError"
    show ?good
    proof (cases s)
      case Nil
      with a show ?thesis by simp
    next
      case (Cons c cs)
      note s = Cons
      consider "c = 34" | "c \<noteq> 34" "c = 123" | "c \<noteq> 34" "c \<noteq> 123" "c = 91"
        | "c \<noteq> 34" "c \<noteq> 123" "c \<noteq> 91" by blast
      then show ?thesis
      proof cases
        case 1
        with a s show ?thesis by (auto split: option.splits)
      next
        case 2
        show ?thesis
        proof (cases d)
          case 0
          with a s 2 show ?thesis by simp
        next
          case (Suc d')
          show ?thesis
          proof (cases "skip_ws cs")
            case Nil
            with a s 2 Suc show ?thesis by simp
          next
            case (Cons x xs)
            show ?thesis
            proof (cases "x \<noteq> 125 \<and> x = 34")
              case True
              with a s 2 Suc Cons have "JSONObject m d' [] xs = Inl e" by simp
              with 1(1) [OF s 2 Suc Cons] True show ?thesis by blast
            next
              case False
              with a s 2 Suc Cons show ?thesis by (auto split: if_splits)
            qed
          qed
        qed
      next
        case 3
        show ?thesis
        proof (cases d)
          case 0
          with a s 3 show ?thesis by simp
        next
          case (Suc d')
          show ?thesis
          proof (cases "skip_ws cs")
            case Nil
            with a s 3 Suc show ?thesis by simp
          next
            case (Cons x xs)
            show ?thesis
            proof (cases "x = 93")
              case True
              with a s 3 Suc Cons show ?thesis by simp
            next
              case False
              with a s 3 Suc Cons have "JSONArray m d' [] (x # xs) = Inl e" by simp
              with 1(2) [OF s 3 Suc Cons False] show ?thesis by blast
            qed
          qed
        qed
      next
        case 4
        with a s have "scan_atom m s = Inl e" by simp
        from scan_atom_error [OF this] show ?thesis by blast
      qed
    qed
  qed
next
  case (2 m d vs s)
  show ?case
  proof (intro allI impI)
    fix e assume a0: "JSONArray m d vs s = Inl e"
    note a = a0 [unfolded JSONArray.simps [of m d vs s]]
    show "e = JSONDecodeError \<or> e = ValueError \<or> e = RecursionError"
    proof (cases "scan_once m d s")
      case (Inl e')
      with a 2(1) show ?thesis by auto
    next
      case (Inr vr)
      obtain v rest where vr: "vr = (v, rest)" by (cases vr)
      note so = Inr [unfolded vr]
      show ?thesis
      proof (cases "length s \<le> length rest")
        case True
        with a so show ?thesis by simp
      next
        case l: False
        show ?thesis
        proof (cases "skip_ws rest")
          case Nil
          with a so l show ?thesis by simp
        next
          case (Cons x xs)
          show ?thesis
          proof (cases "x \<noteq> 93 \<and> x = 44")
            case True
            with a so l Cons have "JSONArray m d (vs @ [v]) (skip_ws xs) = Inl e" by simp
            with 2(2) [OF so refl l Cons] True show ?thesis by blast
          next
            case False
            with a so l Cons show ?thesis by (auto split: if_splits)
          qed
        qed
      qed
    qed
  qed
next
  case (3 m d ps s)
  show ?case
  proof (intro allI impI)
    fix e assume a0: "JSONObject m d ps s = Inl e"
    note a = a0 [unfolded JSONObject.simps [of m d ps s]]
    show "e = JSONDecodeError \<or> e = ValueError \<or> e = RecursionError"
    proof (cases "scanstring [] s")
      case None
      with a show ?thesis by simp
    next
      case (Some kr)
      obtain key rest where kr: "kr = (key, rest)" by (cases kr)
      note k = Some [unfolded kr]
      show ?thesis
      proof (cases "skip_ws rest")
        case Nil
        with a k show ?thesis by simp
      next
        case (Cons c cs)
        note w1 = Cons
        show ?thesis
        proof (cases "c \<noteq> 58")
          case True
          with a k w1 show ?thesis by simp
        next
          case c: False
          show ?thesis
          proof (cases "scan_once m d (skip_ws cs)")
            case (Inl e')
            with a k w1 c 3(1) [OF k refl w1 c] show ?thesis by auto
          next
            case (Inr vr)
            obtain v rest' where vr: "vr = (v, rest')" by (cases vr)
            note so = Inr [unfolded vr]
            show ?thesis
            proof (cases "length s \<le> length rest'")
              case True
              with a k w1 c so show ?thesis by simp
            next
              case l: False
              show ?thesis
              proof (cases "skip_ws rest'")
                case Nil
                with a k w1 c so l show ?thesis by simp
              next
                case (Cons x xs)
                note w2 = Cons
                show ?thesis
                proof (cases "x \<noteq> 125 \<and> x = 44")
                  case False
                  with a k w1 c so l w2 show ?thesis by (auto split: if_splits)
                next
                  case True
                  show ?thesis
                  proof (cases "skip_ws xs")
                    case Nil
                    with a k w1 c so l w2 True show ?thesis by simp
                  next
                    case (Cons q ks)
                    show ?thesis
                    proof (cases "q = 34")
                      case False
                      with a k w1 c so l w2 True Cons show ?thesis by simp
                    next
                      case q: True
                      with a k w1 c so l w2 True Cons
                      have "JSONObject m d (ps @ [(key, v)]) ks = Inl e" by simp
                      with 3(2) [OF k refl w1 c so refl l w2 _ _ Cons q] True
                      show ?thesis by blast
                    qed
                  qed
                qed
              qed
            qed
          qed
        qed
      qed
    qed
  qed
qed

text \<open>
  \<^verbatim>\<open>json.loads(s)\<close> for a \<^verbatim>\<open>str\<close>: a leading byte order mark is refused, white space
  may stand before and after the one value, and anything else after it is
  \<^verbatim>\<open>Extra data\<close>.
\<close>

definition json_loads :: "runtime \<Rightarrow> str \<Rightarrow> error + json" where
  "json_loads rt s =
     (if take 1 s = [65279] then Inl JSONDecodeError
      else
        (case scan_once (max_str_digits rt) (Suc (nesting rt)) (skip_ws s) of
           Inl e \<Rightarrow> Inl e
         | Inr (v, rest) \<Rightarrow> if skip_ws rest = [] then Inr v else Inl JSONDecodeError))"

lemma json_loads_error:
  "json_loads rt s = Inl e \<Longrightarrow> e = JSONDecodeError \<or> e = ValueError \<or> e = RecursionError"
  using scan_error(1) [of "max_str_digits rt" "Suc (nesting rt)" "skip_ws s"]
  by (auto simp: json_loads_def split: if_splits sum.splits)

subsection \<open>The tables\<close>

text \<open>
  The schema is not part of the file; the columns are the ones the code reads, with the
  types the Pydantic classes give them, and \<open>None\<close> for SQL \<^verbatim>\<open>NULL\<close> in the columns
  the classes declare \<^verbatim>\<open>Optional\<close>. An integer column holds a 64-bit signed integer
  (SQLite's \<^verbatim>\<open>INTEGER\<close>), and \<open>sint\<close> is the Python \<^verbatim>\<open>int\<close> read from it. A table is
  the list of its rows in the order in which SQLite visits them; a \<^verbatim>\<open>SELECT\<close> without
  \<^verbatim>\<open>ORDER BY\<close> returns its rows in that order. A text column holds text that
  \<^verbatim>\<open>sqlite3\<close> can read into a \<^verbatim>\<open>str\<close>, and every text, stored or bound, is shorter
  than the \<open>10\<^sup>9\<close> bytes SQLite allows.
\<close>

record image_row =
  img_id :: "64 word"
  img_park_id :: "64 word"
  img_type :: str
  img_url :: str
  img_blur_hash :: str
  img_attribution :: "str option"

record park_row =
  row_id :: "64 word"
  row_name :: str
  row_nps_code :: str
  row_coordinates_lat :: real
  row_coordinates_lon :: real
  row_biome :: str
  row_established :: "64 word"
  row_area_acres :: "64 word"
  row_summary :: str
  row_activities :: "str option"
  row_climate :: "str option"

record database =
  parks_table :: "park_row list"
  images_table :: "image_row list"

text \<open>
  What \<^verbatim>\<open>sqlite3\<close> can bind as a parameter: a Python \<^verbatim>\<open>int\<close> that fits in 64 bits
  (\<^verbatim>\<open>OverflowError\<close> otherwise) and a \<^verbatim>\<open>str\<close> that has a UTF-8 encoding, that is
  without a lone surrogate (\<^verbatim>\<open>UnicodeEncodeError\<close> otherwise).
\<close>

definition int64 :: "int \<Rightarrow> bool" where
  "int64 i = (- (2 ^ 63) \<le> i \<and> i < 2 ^ 63)"

definition surrogate :: "nat \<Rightarrow> bool" where
  "surrogate c = (55296 \<le> c \<and> c \<le> 57343)"

definition encodable :: "str \<Rightarrow> bool" where
  "encodable s = list_all (\<lambda>c. \<not> surrogate c \<and> c \<le> 1114111) s"

subsection \<open>The Pydantic classes\<close>

text \<open>
  \<^verbatim>\<open>Park.id\<close> is \<open>id'\<close> and \<^verbatim>\<open>ParksList.total\<close> is \<open>total'\<close>, since \<open>id\<close> and
  \<open>total\<close> are constants of HOL; a local variable of the source that has the name of a
  field is written with a prime (\<open>parks'\<close>, \<open>biome'\<close>). \<open>SearchDict\<close> is the dictionary
  \<^verbatim>\<open>{"results": ..., "query": ..., "total": ...}\<close> that \<^verbatim>\<open>search_parks\<close> returns.
\<close>

record Coordinates =
  lat :: real
  lon :: real

record GalleryImage =
  url :: str
  blur :: str
  attribution :: "str option"

record Park =
  id' :: int
  name :: str
  nps_code :: str
  coordinates :: Coordinates
  biome :: str
  established :: int
  area_acres :: int
  summary :: str
  gallery :: "GalleryImage list"
  satellite :: "str option"
  activities :: "str list option"
  climate :: "str option"

record ParksList =
  parks :: "Park list"
  total' :: int

record SearchDict =
  results :: "Park list"
  query :: str
  total_results :: int

subsection \<open>\<^verbatim>\<open>get_park_images\<close>\<close>

text \<open>
  \<^verbatim>\<open>SELECT * FROM images WHERE park_id = ? AND type = ? ORDER BY id\<close>: the rows of the
  park and the type, sorted by \<^verbatim>\<open>id\<close> (rows with the same \<^verbatim>\<open>id\<close> keep the table's
  order).
\<close>

definition select_images :: "database \<Rightarrow> int \<Rightarrow> str \<Rightarrow> image_row list" where
  "select_images db park_id image_type =
     sort_key (\<lambda>img. sint (img_id img))
       (filter (\<lambda>img. sint (img_park_id img) = park_id \<and> img_type img = image_type)
          (images_table db))"

definition gallery_image :: "image_row \<Rightarrow> GalleryImage" where
  "gallery_image img =
     \<lparr>url = img_url img, blur = img_blur_hash img, attribution = img_attribution img\<rparr>"

text \<open>
  The two parameters are bound in their order, then the rows are fetched and each is
  made a \<^verbatim>\<open>GalleryImage\<close>.
\<close>

definition get_park_images :: "database \<Rightarrow> int \<Rightarrow> str \<Rightarrow> error + GalleryImage list" where
  "get_park_images db park_id image_type =
     (if \<not> int64 park_id then Inl OverflowError
      else if \<not> encodable image_type then Inl UnicodeEncodeError
      else
        (let images = select_images db park_id image_type
         in Inr (map gallery_image images)))"

subsection \<open>\<^verbatim>\<open>get_park_from_row\<close>\<close>

text \<open>
  \<^verbatim>\<open>SELECT url FROM images WHERE park_id = ? AND type = 'satellite' LIMIT 1\<close>, then
  \<^verbatim>\<open>fetchone()\<close>: the first matching row in the table's order, or \<open>None\<close>. The
  statement has no \<^verbatim>\<open>ORDER BY\<close>. Its parameter is the id of a row, which fits in 64
  bits.
\<close>

definition select_satellite :: "database \<Rightarrow> int \<Rightarrow> image_row option" where
  "select_satellite db park_id =
     (case filter (\<lambda>img. sint (img_park_id img) = park_id \<and> img_type img = lit ''satellite'')
             (images_table db) of
        [] \<Rightarrow> None
      | img # _ \<Rightarrow> Some img)"

text \<open>
  \<^verbatim>\<open>activities: Optional[List[str]]\<close>: Pydantic accepts \<^verbatim>\<open>None\<close> and a list whose
  items are strings, and raises \<^verbatim>\<open>ValidationError\<close> for a dictionary, a string, a
  number or a boolean. What it does with a number or a boolean inside the list, and with
  a string that has a lone surrogate (which the escape \<^verbatim>\<open>\ud800\<close> gives), is
  \<open>str_lax\<close> of the runtime: Pydantic 1 takes the string and writes the number as text,
  Pydantic 2 refuses both. A list, a dictionary or \<^verbatim>\<open>None\<close> inside the list is refused
  by every version.
\<close>

fun str_validator :: "(json \<Rightarrow> str option) \<Rightarrow> json \<Rightarrow> str option" where
  "str_validator lax (JString s) = (if encodable s then Some s else lax (JString s))"
| "str_validator lax JNull = None"
| "str_validator lax (JArray xs) = None"
| "str_validator lax (JObject kvs) = None"
| "str_validator lax v = lax v"

fun validate_activities :: "(json \<Rightarrow> str option) \<Rightarrow> json \<Rightarrow> error + str list option" where
  "validate_activities lax JNull = Inr None"
| "validate_activities lax (JArray xs) =
     (case those (map (str_validator lax) xs) of
        None \<Rightarrow> Inl ValidationError
      | Some ys \<Rightarrow> Inr (Some ys))"
| "validate_activities lax v = Inl ValidationError"

text \<open>
  \<^verbatim>\<open>json.loads(row['activities']) if row['activities'] else []\<close>: \<^verbatim>\<open>NULL\<close> and the
  empty string are false in Python.
\<close>

definition parse_activities :: "runtime \<Rightarrow> str option \<Rightarrow> error + json" where
  "parse_activities rt a =
     (case a of
        None \<Rightarrow> Inr (JArray [])
      | Some s \<Rightarrow> if s = [] then Inr (JArray []) else json_loads rt s)"

definition get_park_from_row :: "runtime \<Rightarrow> database \<Rightarrow> park_row \<Rightarrow> error + Park" where
  "get_park_from_row rt db row =
     (case get_park_images db (sint (row_id row)) (lit ''photo'') of
        Inl e \<Rightarrow> Inl e
      | Inr gallery' \<Rightarrow>
          (let satellite_row = select_satellite db (sint (row_id row));
               satellite_url = (case satellite_row of None \<Rightarrow> None | Some r \<Rightarrow> Some (img_url r))
           in case parse_activities rt (row_activities row) of
                Inl e \<Rightarrow> Inl e
              | Inr decoded \<Rightarrow>
                  (case validate_activities (str_lax rt) decoded of
                     Inl e \<Rightarrow> Inl e
                   | Inr activities' \<Rightarrow>
                       Inr \<lparr>id' = sint (row_id row),
                            name = row_name row,
                            nps_code = row_nps_code row,
                            coordinates =
                              \<lparr>lat = row_coordinates_lat row, lon = row_coordinates_lon row\<rparr>,
                            biome = row_biome row,
                            established = sint (row_established row),
                            area_acres = sint (row_area_acres row),
                            summary = row_summary row,
                            gallery = gallery',
                            satellite = satellite_url,
                            activities = activities',
                            climate = row_climate row\<rparr>)))"

subsection \<open>The handlers\<close>

text \<open>
  The loop \<^verbatim>\<open>for row in rows: park = await get_park_from_row(db, row); parks.append(park)\<close>
  of \<^verbatim>\<open>get_parks\<close> and \<^verbatim>\<open>search_parks\<close>: an exception leaves the loop and the
  handler.
\<close>

fun append_parks ::
  "runtime \<Rightarrow> database \<Rightarrow> Park list \<Rightarrow> park_row list \<Rightarrow> error + Park list" where
  "append_parks rt db parks' [] = Inr parks'"
| "append_parks rt db parks' (row # rows) =
     (case get_park_from_row rt db row of
        Inl e \<Rightarrow> Inl e
      | Inr park \<Rightarrow> append_parks rt db (parks' @ [park]) rows)"

text \<open>
  \<^verbatim>\<open>SELECT * FROM parks WHERE biome = ? ORDER BY name\<close> when \<^verbatim>\<open>biome\<close> is true in
  Python (given and not empty), \<^verbatim>\<open>SELECT * FROM parks ORDER BY name\<close> otherwise.
  \<open>rows_of_biome\<close> is what the statements select, \<open>select_parks\<close> binds the parameter
  first.
\<close>

definition rows_of_biome :: "database \<Rightarrow> str option \<Rightarrow> park_row list" where
  "rows_of_biome db biome' =
     (case biome' of
        None \<Rightarrow> sort_key row_name (parks_table db)
      | Some b \<Rightarrow>
          if b \<noteq> []
          then sort_key row_name (filter (\<lambda>row. row_biome row = b) (parks_table db))
          else sort_key row_name (parks_table db))"

definition select_parks :: "database \<Rightarrow> str option \<Rightarrow> error + park_row list" where
  "select_parks db biome' =
     (case biome' of
        None \<Rightarrow> Inr (rows_of_biome db biome')
      | Some b \<Rightarrow>
          if b \<noteq> [] \<and> \<not> encodable b then Inl UnicodeEncodeError
          else Inr (rows_of_biome db biome'))"

definition get_parks :: "runtime \<Rightarrow> database \<Rightarrow> str option \<Rightarrow> error + ParksList" where
  "get_parks rt db biome' =
     (case select_parks db biome' of
        Inl e \<Rightarrow> Inl e
      | Inr rows \<Rightarrow>
          (case append_parks rt db [] rows of
             Inl e \<Rightarrow> Inl e
           | Inr parks' \<Rightarrow> Inr \<lparr>parks = parks', total' = int (length parks')\<rparr>))"

text \<open>\<^verbatim>\<open>SELECT * FROM parks WHERE id = ?\<close>, then \<^verbatim>\<open>fetchone()\<close>.\<close>

definition select_park :: "database \<Rightarrow> int \<Rightarrow> park_row option" where
  "select_park db park_id =
     (case filter (\<lambda>row. sint (row_id row) = park_id) (parks_table db) of
        [] \<Rightarrow> None
      | row # _ \<Rightarrow> Some row)"

definition get_park :: "runtime \<Rightarrow> database \<Rightarrow> int \<Rightarrow> error + Park" where
  "get_park rt db park_id =
     (if \<not> int64 park_id then Inl OverflowError
      else
        (case select_park db park_id of
           None \<Rightarrow> Inl (HTTPException 404)
         | Some row \<Rightarrow> get_park_from_row rt db row))"

definition get_parks_by_biome :: "runtime \<Rightarrow> database \<Rightarrow> str \<Rightarrow> error + ParksList" where
  "get_parks_by_biome rt db biome' = get_parks rt db (Some biome')"

text \<open>
  SQLite's \<^verbatim>\<open>LIKE\<close> (\<^verbatim>\<open>likeFunc\<close> and \<^verbatim>\<open>patternCompare\<close> in \<^verbatim>\<open>func.c\<close>). It reads
  both texts as C strings of UTF-8, so each ends at its first NUL, and its reader
  (\<^verbatim>\<open>sqlite3Utf8Read\<close>) takes a surrogate, U+FFFE and U+FFFF for U+FFFD. In the pattern,
  \<^verbatim>\<open>%\<close> (37) matches any run of characters, \<^verbatim>\<open>_\<close> (95) matches one character, any
  other character matches itself and, among the ASCII letters, its other case.
\<close>

definition sqlite_read :: "nat \<Rightarrow> nat" where
  "sqlite_read c = (if surrogate c \<or> c = 65534 \<or> c = 65535 then 65533 else c)"

definition sqlite_lower :: "nat \<Rightarrow> nat" where
  "sqlite_lower c = (if 65 \<le> c \<and> c \<le> 90 then c + 32 else c)"

definition like_char :: "nat \<Rightarrow> nat \<Rightarrow> bool" where
  "like_char p c = (p = c \<or> (sqlite_lower p = sqlite_lower c \<and> p < 128 \<and> c < 128))"

fun patternCompare :: "str \<Rightarrow> str \<Rightarrow> bool" where
  "patternCompare [] s = (s = [])"
| "patternCompare (p # ps) [] = (p = 37 \<and> patternCompare ps [])"
| "patternCompare (p # ps) (c # cs) =
     (if p = 37 then patternCompare ps (c # cs) \<or> patternCompare (p # ps) cs
      else (p = 95 \<or> like_char p c) \<and> patternCompare ps cs)"

definition c_string :: "str \<Rightarrow> str" where
  "c_string s = map sqlite_read (takeWhile (\<lambda>c. c \<noteq> 0) s)"

definition like :: "str \<Rightarrow> str \<Rightarrow> bool" where
  "like s pattern = patternCompare (c_string pattern) (c_string s)"

text \<open>
  \<^verbatim>\<open>LIKE\<close> fails (\<^verbatim>\<open>LIKE or GLOB pattern too complex\<close>) when the UTF-8 encoding of
  the pattern is longer than \<^verbatim>\<open>SQLITE_MAX_LIKE_PATTERN_LENGTH\<close>, 50000 bytes, which the
  code does not change. It is called for each row, so not at all on an empty table.
\<close>

definition utf8_length :: "str \<Rightarrow> nat" where
  "utf8_length s =
     sum_list (map (\<lambda>c. if c < 128 then 1 else if c < 2048 then 2 else if c < 65536 then 3 else 4) s)"

definition like_pattern_limit :: nat where
  "like_pattern_limit = 50000"

text \<open>
  \<^verbatim>\<open>SELECT * FROM parks WHERE name LIKE ? OR summary LIKE ? ORDER BY name\<close> with both
  parameters \<^verbatim>\<open>f"%{q}%"\<close>. \<open>rows_matching\<close> is what the statement selects,
  \<open>select_search\<close> binds the parameters and runs it.
\<close>

definition rows_matching :: "database \<Rightarrow> str \<Rightarrow> park_row list" where
  "rows_matching db q =
     sort_key row_name
       (filter (\<lambda>row. like (row_name row) ([37] @ q @ [37]) \<or>
                      like (row_summary row) ([37] @ q @ [37]))
          (parks_table db))"

definition select_search :: "database \<Rightarrow> str \<Rightarrow> error + park_row list" where
  "select_search db q =
     (if \<not> encodable ([37] @ q @ [37]) then Inl UnicodeEncodeError
      else if parks_table db \<noteq> [] \<and> like_pattern_limit < utf8_length ([37] @ q @ [37])
        then Inl OperationalError
      else Inr (rows_matching db q))"

definition search_parks :: "runtime \<Rightarrow> database \<Rightarrow> str \<Rightarrow> error + SearchDict" where
  "search_parks rt db q =
     (if q = [] \<or> length q < 2 then Inl (HTTPException 400)
      else
        (case select_search db q of
           Inl e \<Rightarrow> Inl e
         | Inr rows \<Rightarrow>
             (case append_parks rt db [] rows of
                Inl e \<Rightarrow> Inl e
              | Inr parks' \<Rightarrow>
                  Inr \<lparr>results = parks', query = q, total_results = int (length parks')\<rparr>)))"

subsection \<open>The response body\<close>

text \<open>
  FastAPI writes a \<^verbatim>\<open>Park\<close> as a JSON object with one member per field of the class,
  in the order of the class, and \<^verbatim>\<open>null\<close> for a field that is \<^verbatim>\<open>None\<close>.
\<close>

definition optional_json :: "str option \<Rightarrow> json" where
  "optional_json v = (case v of None \<Rightarrow> JNull | Some s \<Rightarrow> JString s)"

definition gallery_json :: "GalleryImage \<Rightarrow> json" where
  "gallery_json g =
     JObject [(lit ''url'', JString (url g)),
              (lit ''blur'', JString (blur g)),
              (lit ''attribution'', optional_json (attribution g))]"

definition park_json :: "Park \<Rightarrow> json" where
  "park_json p =
     JObject [(lit ''id'', JInt (id' p)),
              (lit ''name'', JString (name p)),
              (lit ''nps_code'', JString (nps_code p)),
              (lit ''coordinates'',
                 JObject [(lit ''lat'', JFloat (lat (coordinates p))),
                          (lit ''lon'', JFloat (lon (coordinates p)))]),
              (lit ''biome'', JString (biome p)),
              (lit ''established'', JInt (established p)),
              (lit ''area_acres'', JInt (area_acres p)),
              (lit ''summary'', JString (summary p)),
              (lit ''gallery'', JArray (map gallery_json (gallery p))),
              (lit ''satellite'', optional_json (satellite p)),
              (lit ''activities'',
                 (case activities p of
                    None \<Rightarrow> JNull
                  | Some xs \<Rightarrow> JArray (map JString xs))),
              (lit ''climate'', optional_json (climate p))]"

definition json_keys :: "json \<Rightarrow> str list" where
  "json_keys v = (case v of JObject kvs \<Rightarrow> map fst kvs | _ \<Rightarrow> [])"

definition json_get :: "json \<Rightarrow> str \<Rightarrow> json option" where
  "json_get v k = (case v of JObject kvs \<Rightarrow> map_of kvs k | _ \<Rightarrow> None)"

text \<open>
  The shape of a response body: which JSON values a field may hold. An object has a
  shape when its members are exactly the fields of the shape and each member has the
  shape of its field.
\<close>

datatype shape = TInt | TFloat | TStr | TOptional shape | TList shape | TObject "(str \<times> shape) list"

fun has_shape :: "shape \<Rightarrow> json \<Rightarrow> bool" where
  "has_shape TInt v = (case v of JInt _ \<Rightarrow> True | _ \<Rightarrow> False)"
| "has_shape TFloat v = (case v of JFloat _ \<Rightarrow> True | _ \<Rightarrow> False)"
| "has_shape TStr v = (case v of JString _ \<Rightarrow> True | _ \<Rightarrow> False)"
| "has_shape (TOptional t) v = (v = JNull \<or> has_shape t v)"
| "has_shape (TList t) v = (case v of JArray xs \<Rightarrow> list_all (has_shape t) xs | _ \<Rightarrow> False)"
| "has_shape (TObject fs) v =
     (case v of
        JObject kvs \<Rightarrow>
          set (map fst kvs) = set (map fst fs) \<and>
          list_all (\<lambda>(k, t). case map_of kvs k of None \<Rightarrow> False | Some x \<Rightarrow> has_shape t x) fs
      | _ \<Rightarrow> False)"

text \<open>The shape of a \<^verbatim>\<open>Park\<close>, read from the classes of the file.\<close>

definition gallery_image_shape :: shape where
  "gallery_image_shape =
     TObject [(lit ''url'', TStr), (lit ''blur'', TStr), (lit ''attribution'', TOptional TStr)]"

definition park_shape :: shape where
  "park_shape =
     TObject [(lit ''id'', TInt),
              (lit ''name'', TStr),
              (lit ''nps_code'', TStr),
              (lit ''coordinates'', TObject [(lit ''lat'', TFloat), (lit ''lon'', TFloat)]),
              (lit ''biome'', TStr),
              (lit ''established'', TInt),
              (lit ''area_acres'', TInt),
              (lit ''summary'', TStr),
              (lit ''gallery'', TList gallery_image_shape),
              (lit ''satellite'', TOptional TStr),
              (lit ''activities'', TOptional (TList TStr)),
              (lit ''climate'', TOptional TStr)]"

text \<open>
  The shape the specification gives, written down from its words:
  \<^verbatim>\<open>id, name, code, coordinates{lat, lon}, biome, established, area_acres, summary,\<close>
  \<^verbatim>\<open>gallery: [{url, blur, attribution?}], satellite?, activities: [string], climate?\<close>.
\<close>

definition spec_park_shape :: shape where
  "spec_park_shape =
     TObject [(lit ''id'', TInt),
              (lit ''name'', TStr),
              (lit ''code'', TStr),
              (lit ''coordinates'', TObject [(lit ''lat'', TFloat), (lit ''lon'', TFloat)]),
              (lit ''biome'', TStr),
              (lit ''established'', TInt),
              (lit ''area_acres'', TInt),
              (lit ''summary'', TStr),
              (lit ''gallery'', TList gallery_image_shape),
              (lit ''satellite'', TOptional TStr),
              (lit ''activities'', TList TStr),
              (lit ''climate'', TOptional TStr)]"

subsection \<open>Conditions on the stored data\<close>

text \<open>
  \<open>plain_activities rt a\<close>: the stored payload \<open>a\<close> is absent, empty, or the JSON of
  \<^verbatim>\<open>null\<close> or of a list of strings (none with a lone surrogate).
  \<open>list_or_null rt s\<close>: the text \<open>s\<close> is the JSON of a list or of \<^verbatim>\<open>null\<close>.
  \<open>literal_query q\<close>: no character of \<open>q\<close> is NUL, \<^verbatim>\<open>%\<close>, \<^verbatim>\<open>_\<close>, U+FFFD, U+FFFE
  or U+FFFF.
\<close>

fun json_string :: "json \<Rightarrow> bool" where
  "json_string (JString s) = encodable s"
| "json_string v = False"

definition plain_activities :: "runtime \<Rightarrow> str option \<Rightarrow> bool" where
  "plain_activities rt a =
     (case parse_activities rt a of
        Inl e \<Rightarrow> False
      | Inr v \<Rightarrow> (case v of JNull \<Rightarrow> True | JArray xs \<Rightarrow> list_all json_string xs | _ \<Rightarrow> False))"

definition literal_query :: "str \<Rightarrow> bool" where
  "literal_query q =
     list_all (\<lambda>c. c \<noteq> 0 \<and> c \<noteq> 37 \<and> c \<noteq> 95 \<and> c \<noteq> 65533 \<and> c \<noteq> 65534 \<and> c \<noteq> 65535) q"

definition list_or_null :: "runtime \<Rightarrow> str \<Rightarrow> bool" where
  "list_or_null rt s =
     (case json_loads rt s of
        Inl e \<Rightarrow> False
      | Inr v \<Rightarrow> (case v of JNull \<Rightarrow> True | JArray xs \<Rightarrow> True | _ \<Rightarrow> False))"

subsection \<open>Example data\<close>

text \<open>
  The park of the specification's example: id 1, \<^verbatim>\<open>Test Park\<close>, biome
  \<^verbatim>\<open>desert\<close>, code \<^verbatim>\<open>TEST\<close>. \<open>test_row a\<close> is its row with the activities payload
  \<open>a\<close>, and \<open>test_park g s a\<close> is the \<^verbatim>\<open>Park\<close> with gallery \<open>g\<close>, satellite \<open>s\<close> and
  activities \<open>a\<close>. \<open>python\<close> is a runtime with Pydantic 2 (\<open>strict_str\<close>), Python's
  default limit on the digits of an integer and room for 990 levels of nesting.
\<close>

definition strict_str :: "json \<Rightarrow> str option" where
  "strict_str v = None"

definition python :: runtime where
  "python = \<lparr>str_lax = strict_str, max_str_digits = 4300, nesting = 990\<rparr>"

definition test_row :: "str option \<Rightarrow> park_row" where
  "test_row a =
     \<lparr>row_id = 1, row_name = lit ''Test Park'', row_nps_code = lit ''TEST'',
      row_coordinates_lat = 36, row_coordinates_lon = -117, row_biome = lit ''desert'',
      row_established = 1994, row_area_acres = 3373063, row_summary = lit ''Hot and dry'',
      row_activities = a, row_climate = None\<rparr>"

definition test_park :: "GalleryImage list \<Rightarrow> str option \<Rightarrow> str list option \<Rightarrow> Park" where
  "test_park g s a =
     \<lparr>id' = 1, name = lit ''Test Park'', nps_code = lit ''TEST'',
      coordinates = \<lparr>lat = 36, lon = -117\<rparr>, biome = lit ''desert'',
      established = 1994, area_acres = 3373063, summary = lit ''Hot and dry'',
      gallery = g, satellite = s, activities = a, climate = None\<rparr>"

definition test_image :: "64 word \<Rightarrow> str \<Rightarrow> str \<Rightarrow> image_row" where
  "test_image k t u =
     \<lparr>img_id = k, img_park_id = 1, img_type = t, img_url = u,
      img_blur_hash = lit ''L6PZfS'', img_attribution = None\<rparr>"

definition test_db :: "str option \<Rightarrow> image_row list \<Rightarrow> database" where
  "test_db a imgs = \<lparr>parks_table = [test_row a], images_table = imgs\<rparr>"

section \<open>Properties\<close>

subsection \<open>Evaluating the decoder and the examples\<close>

lemmas decoder_defs = json_loads_def skip_ws_def whitespace_def scan_atom_def starts_def
  scan_once.simps JSONArray.simps JSONObject.simps match_number_def digit_def digits_value_def
  Let_def

lemma json_loads_hiking_camping:
  \<open>json_loads rt (lit ''["hiking","camping"]'')
     = Inr (JArray [JString (lit ''hiking''), JString (lit ''camping'')])\<close>
  \<open>json_loads rt (lit ''["hiking", "camping"]'')
     = Inr (JArray [JString (lit ''hiking''), JString (lit ''camping'')])\<close>
  by (simp_all add: lit_def decoder_defs)

lemma json_loads_empty_list: "json_loads rt (lit ''[]'') = Inr (JArray [])"
  by (simp add: lit_def decoder_defs)

lemma json_loads_null: "json_loads rt (lit ''null'') = Inr JNull"
  by (simp add: lit_def decoder_defs)

lemma json_loads_oops: "json_loads rt (lit ''oops'') = Inl JSONDecodeError"
  by (simp add: lit_def decoder_defs)

lemmas example_defs = test_db_def test_row_def test_park_def test_image_def python_def
  strict_str_def

lemmas bind_defs = int64_def encodable_def surrogate_def

lemmas assemble_defs = get_park_from_row_def get_park_images_def select_images_def
  select_satellite_def gallery_image_def parse_activities_def Let_def

lemmas like_defs = rows_matching_def select_search_def like_def c_string_def sqlite_read_def
  surrogate_def like_char_def sqlite_lower_def utf8_length_def like_pattern_limit_def

subsection \<open>Binding a parameter\<close>

lemma sort_key_empty: "(sort_key f xs = []) = (xs = [])"
  by (metis length_0_conv length_sort)

lemma int64_sint: "int64 (sint (w :: 64 word))"
  using sint_ge [of w] sint_lt [of w] by (simp add: int64_def)

lemma encodable_photo: "encodable (lit ''photo'')"
  by (simp add: lit_def bind_defs)

lemma get_park_images_row:
  "get_park_images db (sint (w :: 64 word)) (lit ''photo'')
     = Inr (map gallery_image (select_images db (sint w) (lit ''photo'')))"
  by (simp add: get_park_images_def int64_sint encodable_photo)

subsection \<open>Assembling a park\<close>

lemma get_park_from_row_Inr:
  assumes "get_park_from_row rt db row = Inr p"
  shows "id' p = sint (row_id row)" and "name p = row_name row" and "biome p = row_biome row"
    and "summary p = row_summary row"
  using assms
  by (auto simp: get_park_from_row_def get_park_images_row Let_def split: sum.splits)

lemma validate_activities_error:
  "validate_activities lax v = Inl e \<Longrightarrow> e = ValidationError"
  by (cases v) (auto split: option.splits)

lemma parse_activities_error:
  "parse_activities rt a = Inl e \<Longrightarrow> e = JSONDecodeError \<or> e = ValueError \<or> e = RecursionError"
  by (auto simp: parse_activities_def split: option.splits if_splits dest: json_loads_error)

lemma get_park_from_row_Inl:
  assumes "get_park_from_row rt db row = Inl e"
  shows "e = JSONDecodeError \<or> e = ValueError \<or> e = RecursionError \<or> e = ValidationError"
proof (cases "parse_activities rt (row_activities row)")
  case (Inl e')
  with assms have "e = e'"
    by (simp add: get_park_from_row_def get_park_images_row)
  with parse_activities_error [OF Inl] show ?thesis by blast
next
  case (Inr v)
  with assms have "validate_activities (str_lax rt) v = Inl e"
    by (simp add: get_park_from_row_def get_park_images_row split: sum.splits)
  from validate_activities_error [OF this] show ?thesis by simp
qed

lemma get_park_from_row_not_HTTPException:
  "get_park_from_row rt db row \<noteq> Inl (HTTPException n)"
  using get_park_from_row_Inl [of rt db row "HTTPException n"] by auto

lemma validate_strings:
  "list_all json_string xs \<Longrightarrow> \<exists>ys. those (map (str_validator lax) xs) = Some ys"
proof (induction xs)
  case Nil
  then show ?case by simp
next
  case (Cons x xs)
  then obtain s where "x = JString s" and "encodable s" by (cases x) auto
  with Cons show ?case by auto
qed

lemma get_park_from_row_plain:
  assumes "plain_activities rt (row_activities row)"
  shows "\<exists>p. get_park_from_row rt db row = Inr p"
proof -
  from assms obtain v where v: "parse_activities rt (row_activities row) = Inr v"
    and shape: "v = JNull \<or> (\<exists>xs. v = JArray xs \<and> list_all json_string xs)"
    by (cases "parse_activities rt (row_activities row)")
       (auto simp: plain_activities_def split: json.splits)
  from shape have "\<exists>a. validate_activities (str_lax rt) v = Inr a"
  proof
    assume "v = JNull"
    then show ?thesis by simp
  next
    assume "\<exists>xs. v = JArray xs \<and> list_all json_string xs"
    then obtain xs where "v = JArray xs" and "list_all json_string xs" by blast
    with validate_strings [of xs "str_lax rt"] show ?thesis by auto
  qed
  with v show ?thesis
    by (auto simp: get_park_from_row_def get_park_images_row)
qed

lemma validate_activities_not_list:
  "v \<noteq> JNull \<Longrightarrow> (\<forall>xs. v \<noteq> JArray xs) \<Longrightarrow> validate_activities lax v = Inl ValidationError"
  by (cases v) auto

lemma get_park_from_row_not_list:
  assumes "row_activities row = Some s" and "s \<noteq> []" and "\<not> list_or_null rt s"
  shows "\<exists>e. get_park_from_row rt db row = Inl e"
proof (cases "json_loads rt s")
  case (Inl e)
  with assms(1,2) show ?thesis
    by (simp add: get_park_from_row_def get_park_images_row parse_activities_def)
next
  case (Inr v)
  with assms(3) have "v \<noteq> JNull" and "\<forall>xs. v \<noteq> JArray xs"
    by (auto simp: list_or_null_def)
  then have "validate_activities (str_lax rt) v = Inl ValidationError"
    by (rule validate_activities_not_list)
  with Inr assms(1,2) show ?thesis
    by (simp add: get_park_from_row_def get_park_images_row parse_activities_def)
qed

lemma get_park_from_row_null:
  assumes "row_activities row = Some s" and "json_loads rt s = Inr JNull"
  shows "\<exists>p. get_park_from_row rt db row = Inr p \<and> activities p = None"
proof (cases "s = []")
  case True
  with assms(2) show ?thesis by (simp add: decoder_defs)
next
  case False
  with assms show ?thesis
    by (simp add: get_park_from_row_def get_park_images_row parse_activities_def)
qed

subsection \<open>The loop over the rows\<close>

lemma append_parks_Inr:
  "append_parks rt db acc rows = Inr ps \<Longrightarrow>
     \<exists>qs. ps = acc @ qs \<and> list_all2 (\<lambda>row p. get_park_from_row rt db row = Inr p) rows qs"
proof (induction rows arbitrary: acc)
  case Nil
  then show ?case by simp
next
  case (Cons row rows)
  then obtain park where p: "get_park_from_row rt db row = Inr park"
    and rest: "append_parks rt db (acc @ [park]) rows = Inr ps"
    by (auto split: sum.splits)
  from Cons.IH [OF rest] obtain qs where "ps = (acc @ [park]) @ qs"
    and "list_all2 (\<lambda>row p. get_park_from_row rt db row = Inr p) rows qs" by blast
  with p show ?case by (intro exI [of _ "park # qs"]) simp
qed

lemma append_parks_Nil_Inr:
  "append_parks rt db [] rows = Inr ps \<Longrightarrow>
     list_all2 (\<lambda>row p. get_park_from_row rt db row = Inr p) rows ps"
  using append_parks_Inr [of rt db "[]" rows ps] by simp

lemma append_parks_Inl:
  "append_parks rt db acc rows = Inl e \<Longrightarrow>
     \<exists>row \<in> set rows. get_park_from_row rt db row = Inl e"
  by (induction rows arbitrary: acc) (auto split: sum.splits)

lemma append_parks_not_HTTPException:
  "append_parks rt db acc rows \<noteq> Inl (HTTPException n)"
  using append_parks_Inl [of rt db acc rows "HTTPException n"]
    get_park_from_row_not_HTTPException by blast

lemma append_parks_fails:
  "row \<in> set rows \<Longrightarrow> get_park_from_row rt db row = Inl e \<Longrightarrow>
     \<exists>e'. append_parks rt db acc rows = Inl e'"
  by (induction rows arbitrary: acc) (auto split: sum.splits)

lemma append_parks_succeeds:
  "\<forall>row \<in> set rows. \<exists>p. get_park_from_row rt db row = Inr p \<Longrightarrow>
     \<exists>ps. append_parks rt db acc rows = Inr ps"
  by (induction rows arbitrary: acc) (auto split: sum.splits)

lemma list_all2_field:
  assumes "list_all2 (\<lambda>row p. get_park_from_row rt db row = Inr p) rows ps"
  shows "map name ps = map row_name rows" and "map biome ps = map row_biome rows"
  using assms
  by (induction rows ps rule: list_all2_induct) (auto dest: get_park_from_row_Inr)

lemma list_all2_row:
  assumes "list_all2 (\<lambda>row p. get_park_from_row rt db row = Inr p) rows ps" and "p \<in> set ps"
  shows "\<exists>row \<in> set rows. get_park_from_row rt db row = Inr p"
  using assms by (induction rows ps rule: list_all2_induct) auto

subsection \<open>\<^verbatim>\<open>LIKE\<close> with a pattern that has no wildcard of its own\<close>

lemma like_char_iff: "like_char p c \<longleftrightarrow> sqlite_lower p = sqlite_lower c"
  by (auto simp: like_char_def sqlite_lower_def split: if_splits)

lemma patternCompare_percent:
  "patternCompare (37 # pat) s \<Longrightarrow> \<exists>pre suf. s = pre @ suf \<and> patternCompare pat suf"
proof (induction s)
  case Nil
  then show ?case by simp
next
  case (Cons c cs)
  then consider "patternCompare pat (c # cs)" | "patternCompare (37 # pat) cs" by auto
  then show ?case
  proof cases
    case 1
    then show ?thesis by (intro exI [of _ "[]"] exI [of _ "c # cs"]) simp
  next
    case 2
    from Cons.IH [OF 2] obtain pre suf where "cs = pre @ suf" "patternCompare pat suf" by blast
    then show ?thesis by (intro exI [of _ "c # pre"] exI [of _ suf]) simp
  qed
qed

lemma patternCompare_literal:
  "37 \<notin> set q \<Longrightarrow> 95 \<notin> set q \<Longrightarrow> patternCompare (q @ [37]) s \<Longrightarrow>
     \<exists>m r. s = m @ r \<and> map sqlite_lower m = map sqlite_lower q"
proof (induction q arbitrary: s)
  case Nil
  then show ?case by simp
next
  case (Cons p ps)
  from Cons.prems obtain c cs where s: "s = c # cs" by (cases s) auto
  with Cons.prems have "like_char p c" and "patternCompare (ps @ [37]) cs" by auto
  with Cons.IH [of cs] Cons.prems obtain m r where "cs = m @ r"
    "map sqlite_lower m = map sqlite_lower ps" by auto
  with \<open>like_char p c\<close> s show ?case
    by (intro exI [of _ "c # m"] exI [of _ r]) (simp add: like_char_iff)
qed

lemma sqlite_read_plain:
  assumes "c \<noteq> 65533" and "c \<noteq> 65534" and "c \<noteq> 65535" and "\<not> surrogate c"
  shows "sqlite_read c = c"
    and "sqlite_lower (sqlite_read x) = sqlite_lower c \<Longrightarrow> sqlite_lower x = sqlite_lower c"
  using assms by (auto simp: sqlite_read_def sqlite_lower_def split: if_splits)

lemma map_lower_read:
  assumes "list_all (\<lambda>c. c \<noteq> 65533 \<and> c \<noteq> 65534 \<and> c \<noteq> 65535 \<and> \<not> surrogate c) q"
    and "map sqlite_lower (map sqlite_read t) = map sqlite_lower q"
  shows "map sqlite_lower t = map sqlite_lower q"
  using assms
proof (induction q arbitrary: t)
  case Nil
  then show ?case by simp
next
  case (Cons p ps)
  from Cons.prems(2) obtain x xs where t: "t = x # xs" by (cases t) auto
  with Cons.prems have "sqlite_lower (sqlite_read x) = sqlite_lower p"
    and "map sqlite_lower (map sqlite_read xs) = map sqlite_lower ps" by auto
  with Cons.IH [of xs] Cons.prems(1) sqlite_read_plain(2) [of p x] t show ?case by simp
qed

lemma like_substring:
  assumes "literal_query q" and "encodable q" and "like s ([37] @ q @ [37])"
  shows "sublist (map sqlite_lower q) (map sqlite_lower s)"
proof -
  let ?t = "takeWhile (\<lambda>c. c \<noteq> 0) s"
  have plain: "list_all (\<lambda>c. c \<noteq> 65533 \<and> c \<noteq> 65534 \<and> c \<noteq> 65535 \<and> \<not> surrogate c) q"
    using assms(1,2) by (auto simp: literal_query_def encodable_def list_all_iff)
  have w: "37 \<notin> set q" "95 \<notin> set q"
    using assms(1) by (auto simp: literal_query_def list_all_iff)
  have "\<forall>c \<in> set (37 # q @ [37]). c \<noteq> (0::nat)"
    using assms(1) by (auto simp: literal_query_def list_all_iff)
  then have "takeWhile (\<lambda>c. c \<noteq> 0) ([37] @ q @ [37]) = 37 # q @ [37]"
    unfolding append_Cons append_Nil by (rule iffD2 [OF takeWhile_eq_all_conv])
  moreover have "map sqlite_read q = q"
    using plain by (induction q) (simp_all add: sqlite_read_plain(1))
  ultimately have "c_string ([37] @ q @ [37]) = 37 # q @ [37]"
    by (simp add: c_string_def sqlite_read_def surrogate_def)
  with assms(3) have "patternCompare (37 # q @ [37]) (map sqlite_read ?t)"
    by (simp add: like_def c_string_def)
  from patternCompare_percent [OF this] obtain pre suf
    where t: "map sqlite_read ?t = pre @ suf" and "patternCompare (q @ [37]) suf" by blast
  from patternCompare_literal [OF w this(2)] obtain m r
    where "suf = m @ r" and m: "map sqlite_lower m = map sqlite_lower q" by blast
  with t have "map sqlite_read ?t = pre @ m @ r" by simp
  then obtain t1 t23 where t1: "?t = t1 @ t23" and "m @ r = map sqlite_read t23"
    unfolding map_eq_append_conv by blast
  then obtain t2 t3 where "t23 = t2 @ t3" and "m = map sqlite_read t2"
    unfolding append_eq_map_conv by blast
  with t1 have split: "?t = t1 @ t2 @ t3" and "map sqlite_read t2 = m" by simp_all
  with m have "map sqlite_lower (map sqlite_read t2) = map sqlite_lower q" by simp
  from map_lower_read [OF plain this] have t2: "map sqlite_lower t2 = map sqlite_lower q" .
  from split have "s = t1 @ t2 @ (t3 @ dropWhile (\<lambda>c. c \<noteq> 0) s)"
    using takeWhile_dropWhile_id [of "\<lambda>c. c \<noteq> 0" s] by simp
  then have "map sqlite_lower s =
      map sqlite_lower t1 @ map sqlite_lower q @ map sqlite_lower (t3 @ dropWhile (\<lambda>c. c \<noteq> 0) s)"
    using t2 by (metis map_append)
  then show ?thesis unfolding sublist_def by blast
qed

section \<open>The claims\<close>

subsection \<open>C1: the satellite image\<close>

text \<open>
  C1 says that the satellite lookup of \<^verbatim>\<open>get_park_from_row\<close> returns the URL of the
  satellite image with the smallest ordering key (\<^verbatim>\<open>id\<close>), for keys [5, 2] the image
  with key 2, and nothing when the park has no satellite image. The statement of the
  lookup has no \<^verbatim>\<open>ORDER BY\<close>, unlike the one of \<^verbatim>\<open>get_park_images\<close>: it returns the
  first satellite row SQLite visits. With the rows stored as key 5, then key 2, the park's
  satellite is the URL of key 5, while \<^verbatim>\<open>get_park_images\<close> with the type
  \<^verbatim>\<open>satellite\<close> lists key 2 first.
\<close>

theorem satellite_first_row_not_smallest_key:
  "get_park_from_row python
     (test_db None [test_image 5 (lit ''satellite'') (lit ''five.jpg''),
                    test_image 2 (lit ''satellite'') (lit ''two.jpg'')])
     (test_row None)
   = Inr (test_park [] (Some (lit ''five.jpg'')) (Some []))
   \<and> get_park_images
         (test_db None [test_image 5 (lit ''satellite'') (lit ''five.jpg''),
                        test_image 2 (lit ''satellite'') (lit ''two.jpg'')])
         1 (lit ''satellite'')
     = Inr [\<lparr>url = lit ''two.jpg'', blur = lit ''L6PZfS'', attribution = None\<rparr>,
            \<lparr>url = lit ''five.jpg'', blur = lit ''L6PZfS'', attribution = None\<rparr>]"
  by (simp add: example_defs assemble_defs bind_defs lit_def)

theorem satellite_first_row_witness:
  "satellite (test_park [] (Some (lit ''five.jpg'')) (Some [])) = Some (lit ''five.jpg'')
   \<and> get_park_from_row python
     (test_db None [test_image 5 (lit ''satellite'') (lit ''five.jpg''),
                    test_image 2 (lit ''satellite'') (lit ''two.jpg'')])
     (test_row None)
   = Inr (test_park [] (Some (lit ''five.jpg'')) (Some []))"
  using satellite_first_row_not_smallest_key by (simp add: test_park_def)

text \<open>
  What the lookup does return: nothing exactly when the park has no satellite row, and
  the smallest key when SQLite visits the rows in ascending order of their keys.
\<close>

lemma select_satellite_None:
  "(select_satellite db i = None) =
     (\<not> list_ex (\<lambda>img. sint (img_park_id img) = i \<and> img_type img = lit ''satellite'')
          (images_table db))"
proof -
  let ?P = "\<lambda>img. sint (img_park_id img) = i \<and> img_type img = lit ''satellite''"
  have "(select_satellite db i = None) = (filter ?P (images_table db) = [])"
    by (simp add: select_satellite_def split: list.splits)
  also have "\<dots> = (\<not> list_ex ?P (images_table db))"
    by (simp add: filter_empty_conv list_ex_iff)
  finally show ?thesis .
qed

lemma select_satellite_sorted:
  assumes "sorted (map (\<lambda>img. sint (img_id img)) (images_table db))"
    and "select_satellite db i = Some img"
    and "img' \<in> set (images_table db)" and "sint (img_park_id img') = i"
    and "img_type img' = lit ''satellite''"
  shows "sint (img_id img) \<le> sint (img_id img')"
proof -
  let ?P = "\<lambda>img. sint (img_park_id img) = i \<and> img_type img = lit ''satellite''"
  from assms(2) obtain rest where f: "filter ?P (images_table db) = img # rest"
    by (auto simp: select_satellite_def split: list.splits)
  have "sorted (map (\<lambda>img. sint (img_id img)) (filter ?P (images_table db)))"
    using assms(1) by (rule sorted_filter)
  with f have "\<forall>x \<in> set rest. sint (img_id img) \<le> sint (img_id x)" by simp
  moreover have "img' \<in> set (img # rest)"
    using assms(3-5) f [symmetric] by simp
  ultimately show ?thesis by auto
qed

subsection \<open>C2: the parks of a biome\<close>

text \<open>
  C2 says that every park \<^verbatim>\<open>get_parks\<close> returns for a biome \<open>B\<close> has that biome, and
  that the total is the number of park rows with that biome. \<^verbatim>\<open>if biome:\<close> is false for
  the empty string, so \<^verbatim>\<open>get_parks("")\<close> lists every park: the test park, of biome
  \<^verbatim>\<open>desert\<close>, is returned and the total is 1, while no row has the biome \<^verbatim>\<open>""\<close>.
\<close>

theorem get_parks_empty_biome_lists_all:
  "get_parks python (test_db None []) (Some [])
     = Inr \<lparr>parks = [test_park [] None (Some [])], total' = 1\<rparr>
   \<and> biome (test_park [] None (Some [])) = lit ''desert''
   \<and> lit ''desert'' \<noteq> []
   \<and> length (filter (\<lambda>row. row_biome row = []) (parks_table (test_db None []))) = 0"
  by (simp add: example_defs assemble_defs bind_defs lit_def get_parks_def select_parks_def
        rows_of_biome_def)

text \<open>
  C2 as amended: for every biome \<open>B\<close> that is not the empty string, every park that
  \<^verbatim>\<open>get_parks(B)\<close> returns has biome \<open>B\<close> (the stored text, compared exactly), and
  the total is the number of park rows whose biome is \<open>B\<close>.
\<close>

theorem get_parks_biome_filter:
  assumes "B \<noteq> []" and "get_parks rt db (Some B) = Inr pl"
  shows "(\<forall>p \<in> set (parks pl). biome p = B)
       \<and> total' pl = int (length (filter (\<lambda>row. row_biome row = B) (parks_table db)))"
proof -
  let ?rows = "sort_key row_name (filter (\<lambda>row. row_biome row = B) (parks_table db))"
  from assms have ap: "append_parks rt db [] ?rows = Inr (parks pl)"
    and tot: "total' pl = int (length (parks pl))"
    by (auto simp: get_parks_def select_parks_def rows_of_biome_def split: sum.splits if_splits)
  from append_parks_Nil_Inr [OF ap]
  have all2: "list_all2 (\<lambda>row p. get_park_from_row rt db row = Inr p) ?rows (parks pl)" .
  have "biome p = B" if "p \<in> set (parks pl)" for p
  proof -
    from list_all2_row [OF all2 that] obtain row
      where "row \<in> set ?rows" and "get_park_from_row rt db row = Inr p" by blast
    then show ?thesis using get_park_from_row_Inr(3) by fastforce
  qed
  moreover have "length (parks pl) = length ?rows"
    using list_all2_lengthD [OF all2] by simp
  ultimately show ?thesis using tot by simp
qed

theorem get_parks_biome_filter_witness:
  "lit ''desert'' \<noteq> []
   \<and> get_parks python (test_db None []) (Some (lit ''desert''))
       = Inr \<lparr>parks = [test_park [] None (Some [])], total' = 1\<rparr>
   \<and> biome (test_park [] None (Some [])) = lit ''desert''
   \<and> length (filter (\<lambda>row. row_biome row = lit ''desert'') (parks_table (test_db None []))) = 1"
proof -
  have a: "lit ''desert'' \<noteq> []" by (simp add: lit_def)
  have b: "get_parks python (test_db None []) (Some (lit ''desert''))
       = Inr \<lparr>parks = [test_park [] None (Some [])], total' = 1\<rparr>"
    by (simp add: example_defs assemble_defs bind_defs lit_def get_parks_def select_parks_def
          rows_of_biome_def)
  from get_parks_biome_filter [OF a b] a b show ?thesis by simp
qed

subsection \<open>C3: what a search returns\<close>

text \<open>
  C3 says that for a query \<open>q\<close> of at least two characters every park that
  \<^verbatim>\<open>search_parks\<close> returns has \<open>q\<close> in its name or its summary, letter case apart.
  The query is put into the \<^verbatim>\<open>LIKE\<close> pattern as it is, so a \<^verbatim>\<open>%\<close> or \<^verbatim>\<open>_\<close> in it
  is a wildcard: the query \<^verbatim>\<open>__\<close> returns the test park, and neither \<^verbatim>\<open>Test Park\<close>
  nor \<^verbatim>\<open>Hot and dry\<close> contains \<^verbatim>\<open>__\<close>.
\<close>

theorem search_parks_wildcard_query:
  "length (lit ''__'') = 2
   \<and> search_parks python (test_db None []) (lit ''__'')
       = Inr \<lparr>results = [test_park [] None (Some [])], query = lit ''__'', total_results = 1\<rparr>
   \<and> \<not> sublist (map sqlite_lower (lit ''__''))
           (map sqlite_lower (name (test_park [] None (Some []))))
   \<and> \<not> sublist (map sqlite_lower (lit ''__''))
           (map sqlite_lower (summary (test_park [] None (Some []))))"
  by (simp add: example_defs assemble_defs bind_defs lit_def search_parks_def like_defs
        sublist_code(3))

text \<open>
  C3 as amended: for every query \<open>q\<close> of at least two characters that contains no
  \<^verbatim>\<open>%\<close>, no \<^verbatim>\<open>_\<close>, no NUL and none of U+FFFD, U+FFFE and U+FFFF, every park that
  \<^verbatim>\<open>search_parks\<close> returns has \<open>q\<close> as a substring of its name or of its summary, the
  case of the ASCII letters apart, and the parks are in ascending order of their names.
\<close>

theorem search_parks_results_contain_query:
  assumes "2 \<le> length q" and "literal_query q" and "search_parks rt db q = Inr r"
  shows "(\<forall>p \<in> set (results r).
            sublist (map sqlite_lower q) (map sqlite_lower (name p)) \<or>
            sublist (map sqlite_lower q) (map sqlite_lower (summary p)))
       \<and> sorted (map name (results r))"
proof -
  from assms(1,3) have enc: "encodable q"
    and ap: "append_parks rt db [] (rows_matching db q) = Inr (results r)"
    by (auto simp: search_parks_def select_search_def encodable_def
             split: sum.splits if_splits)
  from append_parks_Nil_Inr [OF ap]
  have all2: "list_all2 (\<lambda>row p. get_park_from_row rt db row = Inr p)
                (rows_matching db q) (results r)" .
  have "sublist (map sqlite_lower q) (map sqlite_lower (name p)) \<or>
        sublist (map sqlite_lower q) (map sqlite_lower (summary p))"
    if "p \<in> set (results r)" for p
  proof -
    from list_all2_row [OF all2 that] obtain row
      where row: "row \<in> set (rows_matching db q)"
        and p: "get_park_from_row rt db row = Inr p" by blast
    from row have "like (row_name row) ([37] @ q @ [37]) \<or>
                   like (row_summary row) ([37] @ q @ [37])"
      by (simp add: rows_matching_def)
    then have "sublist (map sqlite_lower q) (map sqlite_lower (row_name row)) \<or>
               sublist (map sqlite_lower q) (map sqlite_lower (row_summary row))"
      using like_substring [OF assms(2) enc] by blast
    then show ?thesis
      using get_park_from_row_Inr(2) [OF p] get_park_from_row_Inr(4) [OF p] by simp
  qed
  moreover have "sorted (map name (results r))"
    using list_all2_field(1) [OF all2] by (simp add: rows_matching_def)
  ultimately show ?thesis by blast
qed

theorem search_parks_results_contain_query_witness:
  "2 \<le> length (lit ''park'') \<and> literal_query (lit ''park'')
   \<and> search_parks python (test_db None []) (lit ''park'')
       = Inr \<lparr>results = [test_park [] None (Some [])], query = lit ''park'', total_results = 1\<rparr>
   \<and> sublist (map sqlite_lower (lit ''park''))
         (map sqlite_lower (name (test_park [] None (Some []))))
   \<and> sorted (map name [test_park [] None (Some [])])"
proof -
  have a: "2 \<le> length (lit ''park'')" and b: "literal_query (lit ''park'')"
    by (simp_all add: lit_def literal_query_def)
  have e: "search_parks python (test_db None []) (lit ''park'')
       = Inr \<lparr>results = [test_park [] None (Some [])], query = lit ''park'', total_results = 1\<rparr>"
    by (simp add: example_defs assemble_defs bind_defs lit_def search_parks_def like_defs)
  have f: "sublist (map sqlite_lower (lit ''park''))
         (map sqlite_lower (name (test_park [] None (Some []))))"
    by (simp add: example_defs lit_def sqlite_lower_def sublist_code(3))
  from search_parks_results_contain_query [OF a b e] a b e f show ?thesis by simp
qed

subsection \<open>C4: the fields of a park in a response\<close>

text \<open>
  C4 says that a serialized park has exactly the fields id, name, code, coordinates
  (lat, lon), biome, established, \<^verbatim>\<open>area_acres\<close>, summary, gallery, satellite, activities (a
  list of strings) and climate. The class \<^verbatim>\<open>Park\<close> names the third field
  \<^verbatim>\<open>nps_code\<close>: the body of \<^verbatim>\<open>get_park(1)\<close> has a member \<^verbatim>\<open>nps_code\<close> and no member
  \<^verbatim>\<open>code\<close>, so it does not have the specification's shape. And \<^verbatim>\<open>activities\<close> is
  \<^verbatim>\<open>null\<close>, not a list, for the park whose stored payload is the JSON \<^verbatim>\<open>null\<close>.
\<close>

theorem park_json_has_no_code_field:
  "get_park python (test_db None []) 1 = Inr (test_park [] None (Some []))
   \<and> \<not> has_shape spec_park_shape (park_json (test_park [] None (Some [])))
   \<and> json_get (park_json (test_park [] None (Some []))) (lit ''code'') = None
   \<and> json_get (park_json (test_park [] None (Some []))) (lit ''nps_code'')
       = Some (JString (lit ''TEST''))
   \<and> get_park python (test_db (Some (lit ''null'')) []) 1 = Inr (test_park [] None None)
   \<and> json_get (park_json (test_park [] None None)) (lit ''activities'') = Some JNull"
  by (simp add: example_defs assemble_defs bind_defs lit_def get_park_def select_park_def
        decoder_defs park_json_def json_get_def spec_park_shape_def optional_json_def)

text \<open>
  C4 as amended: the serialized park has exactly the fields id, name, \<^verbatim>\<open>nps_code\<close>,
  coordinates (an object of lat and lon), biome, established, \<^verbatim>\<open>area_acres\<close>, summary, gallery
  (a list of objects of url, blur and attribution, the last a string or null), satellite
  (a string or null), activities (a list of strings, or null) and climate (a string or
  null).
\<close>

theorem park_json_shape:
  "has_shape park_shape (park_json p)
   \<and> json_keys (park_json p)
       = [lit ''id'', lit ''name'', lit ''nps_code'', lit ''coordinates'', lit ''biome'',
          lit ''established'', lit ''area_acres'', lit ''summary'', lit ''gallery'',
          lit ''satellite'', lit ''activities'', lit ''climate'']"
proof -
  have g: "has_shape gallery_image_shape (gallery_json x)" for x
    by (cases "attribution x")
       (simp_all add: gallery_image_shape_def gallery_json_def optional_json_def lit_def)
  have gs: "has_shape (TList gallery_image_shape) (JArray (map gallery_json (gallery p)))"
    by (simp add: list_all_iff g)
  have s: "has_shape (TOptional TStr) (optional_json v)" for v
    by (cases v) (simp_all add: optional_json_def)
  have a: "has_shape (TOptional (TList TStr))
             (case activities p of None \<Rightarrow> JNull | Some xs \<Rightarrow> JArray (map JString xs))"
    by (cases "activities p") (simp_all add: list_all_iff)
  have "has_shape park_shape (park_json p)"
    unfolding park_shape_def park_json_def
    by (simp add: lit_def gs s a del: has_shape.simps(4,5))
  moreover have "json_keys (park_json p)
       = [lit ''id'', lit ''name'', lit ''nps_code'', lit ''coordinates'', lit ''biome'',
          lit ''established'', lit ''area_acres'', lit ''summary'', lit ''gallery'',
          lit ''satellite'', lit ''activities'', lit ''climate'']"
    by (simp add: json_keys_def park_json_def)
  ultimately show ?thesis by blast
qed

theorem park_json_shape_witness:
  "has_shape park_shape (park_json (test_park [] None (Some [])))
   \<and> json_get (park_json (test_park [] None (Some []))) (lit ''nps_code'')
       = Some (JString (lit ''TEST''))"
  using park_json_shape [of "test_park [] None (Some [])"]
  by (simp add: example_defs lit_def park_json_def json_get_def)

subsection \<open>C5: one park by its id\<close>




subsection \<open>C6: the length of a query\<close>

text \<open>
  C6 says that \<^verbatim>\<open>search_parks(q)\<close> fails with InvalidArgument (status 400) exactly when
  \<open>q\<close> has fewer than two characters, and that for a longer \<open>q\<close> it returns the matches
  with the query and their number. A match is still to be assembled: with the
  activities payload \<^verbatim>\<open>oops\<close> in the test row, the query \<^verbatim>\<open>test\<close> of four characters
  raises \<^verbatim>\<open>JSONDecodeError\<close> and returns nothing. And the query is still to be run: for a
  query of 49999 letters \<^verbatim>\<open>a\<close> the pattern has 50001 bytes, and SQLite refuses it.
\<close>

theorem search_parks_long_query_fails:
  "length (lit ''test'') = 4
   \<and> rows_matching (test_db (Some (lit ''oops'')) []) (lit ''test'')
       = [test_row (Some (lit ''oops''))]
   \<and> search_parks python (test_db (Some (lit ''oops'')) []) (lit ''test'')
       = Inl JSONDecodeError
   \<and> length (replicate 49999 (97::nat)) = 49999
   \<and> search_parks python (test_db None []) (replicate 49999 97) = Inl OperationalError"
proof -
  have a: "length (lit ''test'') = 4" by (simp add: lit_def)
  have b: "rows_matching (test_db (Some (lit ''oops'')) []) (lit ''test'')
       = [test_row (Some (lit ''oops''))]"
    by (simp add: example_defs lit_def like_defs)
  have c: "search_parks python (test_db (Some (lit ''oops'')) []) (lit ''test'')
       = Inl JSONDecodeError"
    by (simp add: example_defs assemble_defs bind_defs lit_def search_parks_def like_defs
          decoder_defs)
  have "utf8_length ([37] @ replicate 49999 97 @ [37]) = 50001"
    by (simp add: utf8_length_def sum_list_replicate)
  moreover have "encodable ([37] @ replicate 49999 97 @ [37])"
    by (simp add: bind_defs list_all_iff)
  moreover have "replicate 49999 (97::nat) \<noteq> []" by simp
  ultimately have d: "search_parks python (test_db None []) (replicate 49999 97)
      = Inl OperationalError"
    by (simp add: search_parks_def select_search_def like_pattern_limit_def test_db_def)
  from a b c d show ?thesis by simp
qed

text \<open>
  C6 as amended: \<^verbatim>\<open>search_parks(q)\<close> fails with InvalidArgument exactly when \<open>q\<close> has
  fewer than two characters. For a \<open>q\<close> of at least two characters it does not fail
  validation, and whatever it returns is the parks assembled from the matching rows, one
  for each row and in their order, with \<open>q\<close> itself and the number of the parks. It does
  return when \<open>q\<close> has a UTF-8 encoding (no lone surrogate), the pattern \<^verbatim>\<open>%q%\<close> has
  at most 50000 bytes, and the activities payload of every matching row is absent,
  empty, or the JSON of \<^verbatim>\<open>null\<close> or of a list of strings (none with a lone
  surrogate).
\<close>

theorem search_parks_invalid_iff:
  "(search_parks rt db q = Inl (HTTPException 400)) = (length q < 2)
   \<and> (\<forall>r. search_parks rt db q = Inr r \<longrightarrow>
         query r = q \<and> total_results r = int (length (results r)) \<and>
         list_all2 (\<lambda>row p. get_park_from_row rt db row = Inr p)
           (rows_matching db q) (results r))
   \<and> (2 \<le> length q \<and> encodable q \<and> utf8_length ([37] @ q @ [37]) \<le> like_pattern_limit \<and>
        list_all (\<lambda>row. plain_activities rt (row_activities row)) (rows_matching db q) \<longrightarrow>
        (\<exists>r. search_parks rt db q = Inr r))"
proof -
  let ?ap = "append_parks rt db [] (rows_matching db q)"
  have short: "search_parks rt db q = Inl (HTTPException 400)" if "length q < 2"
    using that by (simp add: search_parks_def)
  have long: "search_parks rt db q \<noteq> Inl (HTTPException 400)" if l: "2 \<le> length q"
  proof (cases "select_search db q")
    case (Inl e)
    then have "e = UnicodeEncodeError \<or> e = OperationalError"
      by (auto simp: select_search_def split: if_splits)
    with Inl l show ?thesis by (auto simp: search_parks_def)
  next
    case (Inr rows)
    with l append_parks_not_HTTPException [of rt db "[]" rows 400] show ?thesis
      by (auto simp: search_parks_def split: sum.splits)
  qed
  have first: "(search_parks rt db q = Inl (HTTPException 400)) = (length q < 2)"
    using short long by (cases "length q < 2") auto
  have second: "query r = q \<and> total_results r = int (length (results r)) \<and>
         list_all2 (\<lambda>row p. get_park_from_row rt db row = Inr p)
           (rows_matching db q) (results r)"
    if r: "search_parks rt db q = Inr r" for r
  proof -
    from r have "?ap = Inr (results r)" and "query r = q"
      and "total_results r = int (length (results r))"
      by (auto simp: search_parks_def select_search_def split: sum.splits if_splits)
    with append_parks_Nil_Inr [of rt db "rows_matching db q" "results r"] show ?thesis by simp
  qed
  have third: "\<exists>r. search_parks rt db q = Inr r"
    if l: "2 \<le> length q" and enc: "encodable q"
      and len: "utf8_length ([37] @ q @ [37]) \<le> like_pattern_limit"
      and rows: "list_all (\<lambda>row. plain_activities rt (row_activities row)) (rows_matching db q)"
  proof -
    have "encodable ([37] @ q @ [37])"
      using enc by (simp add: encodable_def surrogate_def)
    with len have sel: "select_search db q = Inr (rows_matching db q)"
      by (simp add: select_search_def)
    from rows have "\<forall>row \<in> set (rows_matching db q). \<exists>p. get_park_from_row rt db row = Inr p"
      by (auto simp: list_all_iff intro: get_park_from_row_plain)
    from append_parks_succeeds [OF this] obtain ps where "?ap = Inr ps" by blast
    with sel l show ?thesis by (auto simp: search_parks_def)
  qed
  from first second third show ?thesis by blast
qed

theorem search_parks_invalid_iff_witness:
  "length (lit ''p'') < 2
   \<and> search_parks python (test_db None []) (lit ''p'') = Inl (HTTPException 400)
   \<and> 2 \<le> length (lit ''park'') \<and> encodable (lit ''park'')
   \<and> utf8_length ([37] @ lit ''park'' @ [37]) \<le> like_pattern_limit
   \<and> list_all (\<lambda>row. plain_activities python (row_activities row))
        (rows_matching (test_db None []) (lit ''park''))
   \<and> search_parks python (test_db None []) (lit ''park'')
       = Inr \<lparr>results = [test_park [] None (Some [])], query = lit ''park'', total_results = 1\<rparr>"
proof -
  have a: "length (lit ''p'') < 2" and b: "2 \<le> length (lit ''park'')"
    and b1: "encodable (lit ''park'')"
    and b2: "utf8_length ([37] @ lit ''park'' @ [37]) \<le> like_pattern_limit"
    by (simp_all add: lit_def bind_defs utf8_length_def like_pattern_limit_def)
  have c: "list_all (\<lambda>row. plain_activities python (row_activities row))
        (rows_matching (test_db None []) (lit ''park''))"
    by (simp add: example_defs lit_def like_defs plain_activities_def parse_activities_def)
  have d: "search_parks python (test_db None []) (lit ''park'')
       = Inr \<lparr>results = [test_park [] None (Some [])], query = lit ''park'', total_results = 1\<rparr>"
    by (simp add: example_defs assemble_defs bind_defs lit_def search_parks_def like_defs)
  from search_parks_invalid_iff [of python "test_db None []" "lit ''park''"] b b1 b2 c
  have f: "\<exists>r. search_parks python (test_db None []) (lit ''park'') = Inr r" by blast
  from search_parks_invalid_iff [of python "test_db None []" "lit ''p''"] a
  have "search_parks python (test_db None []) (lit ''p'') = Inl (HTTPException 400)"
    by blast
  with a b b1 b2 c d f show ?thesis by simp
qed

subsection \<open>C7: an activities payload that does not decode\<close>

text \<open>
  C7 says that when the stored activities payload of a row of a result set does not
  decode as a list, assembling the park fails and so does the whole of \<^verbatim>\<open>get_parks\<close>
  or \<^verbatim>\<open>search_parks\<close>. The payload \<^verbatim>\<open>null\<close> is JSON and not a list, and
  \<^verbatim>\<open>Optional[List[str]]\<close> accepts what it decodes to: the park is assembled with
  \<^verbatim>\<open>activities = None\<close>, and \<^verbatim>\<open>get_parks\<close> returns it.
\<close>

theorem get_parks_null_activities:
  "json_loads python (lit ''null'') = Inr JNull
   \<and> get_park_from_row python (test_db (Some (lit ''null'')) []) (test_row (Some (lit ''null'')))
       = Inr (test_park [] None None)
   \<and> activities (test_park [] None None) = None
   \<and> get_parks python (test_db (Some (lit ''null'')) []) None
       = Inr \<lparr>parks = [test_park [] None None], total' = 1\<rparr>"
  by (simp add: example_defs assemble_defs bind_defs lit_def get_parks_def select_parks_def
        rows_of_biome_def decoder_defs)

text \<open>
  C7 as amended: when the stored activities payload of a row of a result set is not
  empty and is neither the JSON of a list nor the JSON \<^verbatim>\<open>null\<close>, assembling that park
  fails with an error (it is not given an empty list), and \<^verbatim>\<open>get_parks\<close> and
  \<^verbatim>\<open>search_parks\<close> fail too and return no park at all. When the payload is the JSON
  \<^verbatim>\<open>null\<close>, the park is assembled with no activities list (\<^verbatim>\<open>None\<close>).
\<close>

theorem corrupt_activities_fail_the_request:
  assumes "row_activities row = Some s" and "s \<noteq> []"
  shows "(\<not> list_or_null rt s \<longrightarrow>
            (\<exists>e. get_park_from_row rt db row = Inl e)
          \<and> (row \<in> set (rows_of_biome db b) \<longrightarrow> (\<exists>e. get_parks rt db b = Inl e))
          \<and> (2 \<le> length q \<and> row \<in> set (rows_matching db q) \<longrightarrow>
               (\<exists>e. search_parks rt db q = Inl e)))
       \<and> (json_loads rt s = Inr JNull \<longrightarrow>
            (\<exists>p. get_park_from_row rt db row = Inr p \<and> activities p = None))"
proof -
  have one: "\<exists>e. get_park_from_row rt db row = Inl e" if "\<not> list_or_null rt s"
    using assms that by (rule get_park_from_row_not_list)
  have two: "\<exists>e. get_parks rt db b = Inl e"
    if n: "\<not> list_or_null rt s" and r: "row \<in> set (rows_of_biome db b)"
  proof (cases "select_parks db b")
    case (Inl e)
    then show ?thesis by (simp add: get_parks_def)
  next
    case (Inr rows)
    then have rows: "rows = rows_of_biome db b"
      by (auto simp: select_parks_def split: option.splits if_splits)
    from one [OF n] obtain e where "get_park_from_row rt db row = Inl e" by blast
    from append_parks_fails [OF r this, of "[]"] Inr rows show ?thesis
      by (auto simp: get_parks_def)
  qed
  have three: "\<exists>e. search_parks rt db q = Inl e"
    if n: "\<not> list_or_null rt s" and l: "2 \<le> length q"
      and r: "row \<in> set (rows_matching db q)"
  proof (cases "select_search db q")
    case (Inl e)
    with l show ?thesis by (auto simp: search_parks_def)
  next
    case (Inr rows)
    then have rows: "rows = rows_matching db q"
      by (auto simp: select_search_def split: if_splits)
    from one [OF n] obtain e where "get_park_from_row rt db row = Inl e" by blast
    from append_parks_fails [OF r this, of "[]"] Inr rows l show ?thesis
      by (auto simp: search_parks_def)
  qed
  have four: "\<exists>p. get_park_from_row rt db row = Inr p \<and> activities p = None"
    if "json_loads rt s = Inr JNull"
    using assms(1) that by (rule get_park_from_row_null)
  from one two three four show ?thesis by blast
qed

theorem corrupt_activities_fail_the_request_witness:
  "row_activities (test_row (Some (lit ''oops''))) = Some (lit ''oops'')
   \<and> lit ''oops'' \<noteq> [] \<and> \<not> list_or_null python (lit ''oops'')
   \<and> test_row (Some (lit ''oops''))
       \<in> set (rows_of_biome (test_db (Some (lit ''oops'')) []) None)
   \<and> 2 \<le> length (lit ''test'')
   \<and> test_row (Some (lit ''oops''))
       \<in> set (rows_matching (test_db (Some (lit ''oops'')) []) (lit ''test''))
   \<and> isl (get_park_from_row python (test_db (Some (lit ''oops'')) [])
        (test_row (Some (lit ''oops''))))
   \<and> isl (get_parks python (test_db (Some (lit ''oops'')) []) None)
   \<and> isl (search_parks python (test_db (Some (lit ''oops'')) []) (lit ''test''))
   \<and> row_activities (test_row (Some (lit ''null''))) = Some (lit ''null'')
   \<and> lit ''null'' \<noteq> [] \<and> json_loads python (lit ''null'') = Inr JNull
   \<and> (\<exists>p. get_park_from_row python (test_db (Some (lit ''null'')) [])
             (test_row (Some (lit ''null''))) = Inr p \<and> activities p = None)"
proof -
  have a: "row_activities (test_row (Some (lit ''oops''))) = Some (lit ''oops'')"
    by (simp add: test_row_def)
  have b: "lit ''oops'' \<noteq> []" by (simp add: lit_def)
  have c: "\<not> list_or_null python (lit ''oops'')"
    by (simp add: list_or_null_def json_loads_oops)
  have d: "test_row (Some (lit ''oops''))
       \<in> set (rows_of_biome (test_db (Some (lit ''oops'')) []) None)"
    by (simp add: rows_of_biome_def test_db_def)
  have l: "2 \<le> length (lit ''test'')" by (simp add: lit_def)
  have m: "test_row (Some (lit ''oops''))
       \<in> set (rows_matching (test_db (Some (lit ''oops'')) []) (lit ''test''))"
    by (simp add: example_defs lit_def like_defs)
  from corrupt_activities_fail_the_request [OF a b,
      of python "test_db (Some (lit ''oops'')) []" None "lit ''test''"] c d l m
  have "\<exists>e. get_park_from_row python (test_db (Some (lit ''oops'')) [])
        (test_row (Some (lit ''oops''))) = Inl e"
    and "\<exists>e. get_parks python (test_db (Some (lit ''oops'')) []) None = Inl e"
    and "\<exists>e. search_parks python (test_db (Some (lit ''oops'')) []) (lit ''test'') = Inl e"
    by blast+
  then have f: "isl (get_park_from_row python (test_db (Some (lit ''oops'')) [])
        (test_row (Some (lit ''oops''))))"
    and g: "isl (get_parks python (test_db (Some (lit ''oops'')) []) None)"
    and h: "isl (search_parks python (test_db (Some (lit ''oops'')) []) (lit ''test''))"
    by auto
  have a': "row_activities (test_row (Some (lit ''null''))) = Some (lit ''null'')"
    by (simp add: test_row_def)
  have b': "lit ''null'' \<noteq> []" by (simp add: lit_def)
  have c': "json_loads python (lit ''null'') = Inr JNull"
    by (rule json_loads_null)
  from corrupt_activities_fail_the_request [OF a' b',
      of python "test_db (Some (lit ''null'')) []" None "[]"] c'
  have n: "\<exists>p. get_park_from_row python (test_db (Some (lit ''null'')) [])
             (test_row (Some (lit ''null''))) = Inr p \<and> activities p = None"
    by blast
  from a b c d l m f g h a' b' c' n show ?thesis by simp
qed

subsection \<open>C8: the gallery\<close>

text \<open>
  C8 says that for every park id \<^verbatim>\<open>get_park_images\<close> returns exactly the images of
  type \<^verbatim>\<open>photo\<close> of the park in ascending order of their keys (\<^verbatim>\<open>id\<close>), and that it
  returns the empty list, never an error, when the park has no photo or does not exist.
  The function looks at the image rows only: an image row of type \<^verbatim>\<open>photo\<close> whose park
  id is 1 is returned for the id 1 also when the table of parks has no row at all. And
  the id is bound to the statement first: for the id \<open>2\<^sup>6\<^sup>3\<close> the function raises
  \<^verbatim>\<open>OverflowError\<close>.
\<close>

theorem get_park_images_of_missing_park:
  "\<not> list_ex (\<lambda>row. sint (row_id row) = 1)
       (parks_table \<lparr>parks_table = [],
                     images_table = [test_image 3 (lit ''photo'') (lit ''c.jpg'')]\<rparr>)
   \<and> get_park_images
       \<lparr>parks_table = [], images_table = [test_image 3 (lit ''photo'') (lit ''c.jpg'')]\<rparr>
       1 (lit ''photo'')
     = Inr [\<lparr>url = lit ''c.jpg'', blur = lit ''L6PZfS'', attribution = None\<rparr>]
   \<and> get_park_images (test_db None []) (2 ^ 63) (lit ''photo'') = Inl OverflowError"
  by (simp add: example_defs assemble_defs bind_defs lit_def)

text \<open>
  C8 as amended: for every park id that fits in 64 bits, \<^verbatim>\<open>get_park_images\<close> returns
  exactly the image rows of type \<^verbatim>\<open>photo\<close> that carry the park id, each as its url,
  its blur hash (as \<^verbatim>\<open>blur\<close>) and its attribution, in ascending order of their keys
  (in the order of the keys 1, 2, 3 for photos stored with the keys 3, 1, 2); it returns
  the empty list, not an error, exactly when no image row of type \<^verbatim>\<open>photo\<close> carries the
  id, as for a park without photos and for a missing park of which no image row is left.
\<close>

theorem get_park_images_sorted_photos:
  assumes "int64 i"
  shows "(\<exists>rows.
            get_park_images db i (lit ''photo'')
              = Inr (map (\<lambda>img. \<lparr>url = img_url img, blur = img_blur_hash img,
                                attribution = img_attribution img\<rparr>) rows)
          \<and> sorted (map (\<lambda>img. sint (img_id img)) rows)
          \<and> mset rows
              = filter_mset (\<lambda>img. sint (img_park_id img) = i \<and> img_type img = lit ''photo'')
                  (mset (images_table db)))
       \<and> (get_park_images db i (lit ''photo'') = Inr [])
           = (\<not> list_ex (\<lambda>img. sint (img_park_id img) = i \<and> img_type img = lit ''photo'')
                 (images_table db))"
proof -
  let ?P = "\<lambda>img. sint (img_park_id img) = i \<and> img_type img = lit ''photo''"
  let ?rows = "sort_key (\<lambda>img. sint (img_id img)) (filter ?P (images_table db))"
  let ?g = "\<lambda>img. \<lparr>url = img_url img, blur = img_blur_hash img,
                    attribution = img_attribution img\<rparr>"
  have g: "get_park_images db i (lit ''photo'') = Inr (map ?g ?rows)"
    using assms
    by (simp add: get_park_images_def encodable_photo select_images_def gallery_image_def)
  have "sorted (map (\<lambda>img. sint (img_id img)) ?rows)" by simp
  moreover have "mset ?rows = filter_mset ?P (mset (images_table db))" by simp
  ultimately have one: "\<exists>rows. get_park_images db i (lit ''photo'') = Inr (map ?g rows)
          \<and> sorted (map (\<lambda>img. sint (img_id img)) rows)
          \<and> mset rows = filter_mset ?P (mset (images_table db))"
    using g by blast
  have "(?rows = []) = (filter ?P (images_table db) = [])"
    by (rule sort_key_empty)
  then have "(get_park_images db i (lit ''photo'') = Inr []) = (filter ?P (images_table db) = [])"
    using g by simp
  also have "\<dots> = (\<not> list_ex ?P (images_table db))"
    by (simp add: filter_empty_conv list_ex_iff)
  finally have two: "(get_park_images db i (lit ''photo'') = Inr [])
      = (\<not> list_ex ?P (images_table db))" .
  from one two show ?thesis by blast
qed

theorem get_park_images_sorted_photos_witness:
  "int64 1
   \<and> get_park_images
       (test_db None [test_image 3 (lit ''photo'') (lit ''c.jpg''),
                      test_image 1 (lit ''photo'') (lit ''a.jpg''),
                      test_image 2 (lit ''photo'') (lit ''b.jpg'')]) 1 (lit ''photo'')
     = Inr [\<lparr>url = lit ''a.jpg'', blur = lit ''L6PZfS'', attribution = None\<rparr>,
            \<lparr>url = lit ''b.jpg'', blur = lit ''L6PZfS'', attribution = None\<rparr>,
            \<lparr>url = lit ''c.jpg'', blur = lit ''L6PZfS'', attribution = None\<rparr>]
   \<and> \<not> list_ex (\<lambda>img. sint (img_park_id img) = 1 \<and> img_type img = lit ''photo'')
         (images_table (test_db None []))
   \<and> get_park_images (test_db None []) 1 (lit ''photo'') = Inr []"
proof -
  have a: "int64 1" by (simp add: int64_def)
  have b: "get_park_images
       (test_db None [test_image 3 (lit ''photo'') (lit ''c.jpg''),
                      test_image 1 (lit ''photo'') (lit ''a.jpg''),
                      test_image 2 (lit ''photo'') (lit ''b.jpg'')]) 1 (lit ''photo'')
     = Inr [\<lparr>url = lit ''a.jpg'', blur = lit ''L6PZfS'', attribution = None\<rparr>,
            \<lparr>url = lit ''b.jpg'', blur = lit ''L6PZfS'', attribution = None\<rparr>,
            \<lparr>url = lit ''c.jpg'', blur = lit ''L6PZfS'', attribution = None\<rparr>]"
    by (simp add: example_defs assemble_defs bind_defs lit_def)
  have c: "\<not> list_ex (\<lambda>img. sint (img_park_id img) = 1 \<and> img_type img = lit ''photo'')
         (images_table (test_db None []))"
    by (simp add: test_db_def)
  from get_park_images_sorted_photos [OF a, of "test_db None []"] c
  have "get_park_images (test_db None []) 1 (lit ''photo'') = Inr []" by blast
  with a b c show ?thesis by simp
qed

subsection \<open>C9: the activities of a row\<close>

text \<open>
  C9 says that a row whose activities field is the encoding of the list of
  \<^verbatim>\<open>hiking\<close> and \<^verbatim>\<open>camping\<close> is assembled into a park with exactly these two
  activities, and a row whose activities field is absent, null or empty into a park with
  no activities. The encoding is taken as written in the specification and as
  \<^verbatim>\<open>json.dumps\<close> writes it (a space after the comma); absent and null are SQL
  \<^verbatim>\<open>NULL\<close>, empty is the empty string or the encoding of the empty list.
\<close>

theorem activities_round_trip:
  \<open>(\<exists>p. get_park_from_row rt db (row\<lparr>row_activities := Some (lit ''["hiking","camping"]'')\<rparr>) = Inr p
        \<and> activities p = Some [lit ''hiking'', lit ''camping''])
   \<and> (\<exists>p. get_park_from_row rt db (row\<lparr>row_activities := Some (lit ''["hiking", "camping"]'')\<rparr>) = Inr p
        \<and> activities p = Some [lit ''hiking'', lit ''camping''])
   \<and> (\<exists>p. get_park_from_row rt db (row\<lparr>row_activities := None\<rparr>) = Inr p
        \<and> activities p = Some [])
   \<and> (\<exists>p. get_park_from_row rt db (row\<lparr>row_activities := Some []\<rparr>) = Inr p
        \<and> activities p = Some [])
   \<and> (\<exists>p. get_park_from_row rt db (row\<lparr>row_activities := Some (lit ''[]'')\<rparr>) = Inr p
        \<and> activities p = Some [])\<close>
proof -
  have n: \<open>lit ''["hiking","camping"]'' \<noteq> []\<close> \<open>lit ''["hiking", "camping"]'' \<noteq> []\<close>
    "lit ''[]'' \<noteq> []"
    by (simp_all add: lit_def)
  have e: "encodable (lit ''hiking'')" "encodable (lit ''camping'')"
    by (simp_all add: lit_def bind_defs)
  show ?thesis
    by (simp add: get_park_from_row_def get_park_images_row parse_activities_def
          json_loads_hiking_camping json_loads_empty_list n e)
qed

theorem activities_round_trip_witness:
  \<open>get_park_from_row python (test_db None []) (test_row (Some (lit ''["hiking","camping"]'')))
     = Inr (test_park [] None (Some [lit ''hiking'', lit ''camping'']))
   \<and> activities (test_park [] None (Some [lit ''hiking'', lit ''camping'']))
     = Some [lit ''hiking'', lit ''camping'']\<close>
  using activities_round_trip [of python "test_db None []" "test_row None"]
  by (simp add: example_defs assemble_defs bind_defs lit_def decoder_defs)

subsection \<open>C10: the parks of a biome, by the other route\<close>

text \<open>
  C10 says that \<^verbatim>\<open>get_parks_by_biome(b)\<close> returns exactly what \<^verbatim>\<open>get_parks(b)\<close>
  returns, for every biome \<open>b\<close> and every database: the handler is the call
  \<^verbatim>\<open>get_parks(biome=biome)\<close>.
\<close>

theorem get_parks_by_biome_is_get_parks:
  "get_parks_by_biome rt db b = get_parks rt db (Some b)"
  by (simp add: get_parks_by_biome_def)

theorem get_parks_by_biome_is_get_parks_witness:
  "get_parks_by_biome python (test_db None []) (lit ''desert'')
     = Inr \<lparr>parks = [test_park [] None (Some [])], total' = 1\<rparr>
   \<and> get_parks python (test_db None []) (Some (lit ''desert''))
     = Inr \<lparr>parks = [test_park [] None (Some [])], total' = 1\<rparr>"
proof -
  have "get_parks python (test_db None []) (Some (lit ''desert''))
     = Inr \<lparr>parks = [test_park [] None (Some [])], total' = 1\<rparr>"
    by (simp add: example_defs assemble_defs bind_defs lit_def get_parks_def select_parks_def
          rows_of_biome_def)
  with get_parks_by_biome_is_get_parks [of python "test_db None []" "lit ''desert''"]
  show ?thesis by simp
qed

end
